theory Spec2Isabelle
  imports Main "HOL-Library.Sublist"
begin

section \<open>Error analysis of a duplex text-normalization system\<close>

text \<open>
  A shallow embedding of \<^verbatim>\<open>examples/nlp/duplex_text_normalization/analyze_errors.py\<close>
  and of the covering-grammar fallback of \<^verbatim>\<open>class_based_evaluation_cg.py\<close>.

  Python values are modelled as follows. A \<^verbatim>\<open>str\<close> is a \<^typ>\<open>string\<close> whose characters
  are read as the code points 0 to 255; a Python \<^verbatim>\<open>int\<close> is an \<^typ>\<open>int\<close>, a loop counter
  that runs over \<^verbatim>\<open>range(n)\<close> or only counts down to zero under a guard is a \<^typ>\<open>nat\<close>.
  A raised exception is the \<open>Inl\<close> of a sum. A local variable that may be read before
  it is bound is an \<open>option\<close>.
\<close>

text \<open>
  The exceptions that occur: the four built-in ones, and \<open>NormalizerError\<close> for whatever
  the external normalizer raises.
\<close>

datatype py_error =
    IndexError
  | UnboundLocalError
  | NameError
  | AttributeError
  | NormalizerError

type_synonym token = string

subsection \<open>List primitives of Python\<close>

text \<open>\<^verbatim>\<open>xs[k] = v\<close>: a negative index counts from the end, an index out of range raises.\<close>

definition py_set :: "'a list \<Rightarrow> int \<Rightarrow> 'a \<Rightarrow> py_error + 'a list" where
  "py_set xs k v =
     (let n = int (length xs); p = (if k < 0 then n + k else k)
      in if 0 \<le> p \<and> p < n then Inr (xs[nat p := v]) else Inl IndexError)"

subsection \<open>\<^verbatim>\<open>lcs\<close>: the table\<close>

text \<open>
  \<^verbatim>\<open>
  m, n = len(X), len(Y)
  L = [[0 for x in range(n + 1)] for x in range(m + 1)]
  for i in range(m + 1):
      for j in range(n + 1):
          if i == 0 or j == 0:
              L[i][j] = 0
          elif X[i - 1] == Y[j - 1]:
              L[i][j] = L[i - 1][j - 1] + 1
          else:
              L[i][j] = max(L[i - 1][j], L[i][j - 1])
  \<close>
  The table is a list of rows. Both loops run over \<^verbatim>\<open>range\<close>, so every index
  read or written is in range: \<open>i \<le> m\<close>, \<open>j \<le> n\<close>, and \<open>i - 1\<close>, \<open>j - 1\<close> are only
  formed when \<open>i\<close> and \<open>j\<close> are positive.
\<close>

definition init_table :: "nat \<Rightarrow> nat \<Rightarrow> int list list" where
  "init_table m n = replicate (m + 1) (replicate (n + 1) 0)"

definition set_cell :: "int list list \<Rightarrow> nat \<Rightarrow> nat \<Rightarrow> int \<Rightarrow> int list list" where
  "set_cell L i j v = L[i := (L ! i)[j := v]]"

definition cell_value :: "token list \<Rightarrow> token list \<Rightarrow> int list list \<Rightarrow> nat \<Rightarrow> nat \<Rightarrow> int" where
  "cell_value X Y L i j =
     (if i = 0 \<or> j = 0 then 0
      else if X ! (i - 1) = Y ! (j - 1) then L ! (i - 1) ! (j - 1) + 1
      else max (L ! (i - 1) ! j) (L ! i ! (j - 1)))"

definition fill_row :: "token list \<Rightarrow> token list \<Rightarrow> nat \<Rightarrow> int list list \<Rightarrow> int list list" where
  "fill_row X Y i L =
     fold (\<lambda>j L'. set_cell L' i j (cell_value X Y L' i j)) [0..<length Y + 1] L"

definition lcs_table :: "token list \<Rightarrow> token list \<Rightarrow> int list list" where
  "lcs_table X Y =
     fold (fill_row X Y) [0..<length X + 1] (init_table (length X) (length Y))"

subsection \<open>\<^verbatim>\<open>lcs\<close>: the backtracking loop\<close>

text \<open>
  \<^verbatim>\<open>
  index = L[m][n]
  lcs = [''] * (index + 1)
  lcs[index] = ''
  i = m
  j = n
  while i > 0 and j > 0:
      if X[i - 1] == Y[j - 1]:
          lcs[index - 1] = X[i - 1]
          i -= 1
          j -= 1
          index -= 1
      elif L[i - 1][j] > L[i][j - 1]:
          i -= 1
      else:
          j -= 1
  return lcs[:-1]
  \<close>
  The loop state is \<open>(i, j, index, lcs)\<close>. \<open>index\<close> is an \<^typ>\<open>int\<close>: nothing in the
  loop keeps it positive, and \<^verbatim>\<open>lcs[index - 1]\<close> with a negative index would write
  from the end of the list or raise.
\<close>

type_synonym bt_state = "nat \<times> nat \<times> int \<times> token list"

definition lcs_step ::
  "token list \<Rightarrow> token list \<Rightarrow> int list list \<Rightarrow> bt_state \<Rightarrow> py_error + bt_state" where
  "lcs_step X Y L s =
     (case s of (i, j, index, acc) \<Rightarrow>
        if X ! (i - 1) = Y ! (j - 1) then
          (case py_set acc (index - 1) (X ! (i - 1)) of
             Inl e \<Rightarrow> Inl e
           | Inr acc' \<Rightarrow> Inr (i - 1, j - 1, index - 1, acc'))
        else if L ! (i - 1) ! j > L ! i ! (j - 1) then Inr (i - 1, j, index, acc)
        else Inr (i, j - 1, index, acc))"

function lcs_loop ::
  "token list \<Rightarrow> token list \<Rightarrow> int list list \<Rightarrow> bt_state \<Rightarrow> py_error + bt_state" where
  "lcs_loop X Y L (i, j, index, acc) =
     (if 0 < i \<and> 0 < j then
        (case lcs_step X Y L (i, j, index, acc) of
           Inl e \<Rightarrow> Inl e
         | Inr s' \<Rightarrow> lcs_loop X Y L s')
      else Inr (i, j, index, acc))"
  by pat_completeness auto
termination
  by (relation "measure (\<lambda>(X, Y, L, i, j, index, acc). i + j)")
     (auto simp: lcs_step_def split: if_splits sum.splits)

definition lcs :: "token list \<Rightarrow> token list \<Rightarrow> py_error + token list" where
  "lcs X Y =
     (let m = length X; n = length Y;
          L = lcs_table X Y;
          index = L ! m ! n
      in case py_set (replicate (nat (index + 1)) '''') index '''' of
           Inl e \<Rightarrow> Inl e
         | Inr acc \<Rightarrow>
             (case lcs_loop X Y L (m, n, index, acc) of
                Inl e \<Rightarrow> Inl e
              | Inr (i, j, index', acc') \<Rightarrow> Inr (butlast acc')))"

subsection \<open>Specification functions for \<^verbatim>\<open>lcs\<close>\<close>

text \<open>
  The recurrence of the table as a function of the two prefix lengths, and the tokens the
  backtracking collects when it starts from cell \<open>(i, j)\<close> of a table that satisfies the
  recurrence. Both are used only to state invariants of the loops above.
\<close>

fun lcs_len :: "token list \<Rightarrow> token list \<Rightarrow> nat \<Rightarrow> nat \<Rightarrow> int" where
  "lcs_len X Y 0 j = 0"
| "lcs_len X Y (Suc i) 0 = 0"
| "lcs_len X Y (Suc i) (Suc j) =
     (if X ! i = Y ! j then lcs_len X Y i j + 1
      else max (lcs_len X Y i (Suc j)) (lcs_len X Y (Suc i) j))"

definition table_dims :: "token list \<Rightarrow> token list \<Rightarrow> int list list \<Rightarrow> bool" where
  "table_dims X Y L \<longleftrightarrow>
     length L = length X + 1 \<and> (\<forall>r < length X + 1. length (L ! r) = length Y + 1)"

definition table_upto :: "token list \<Rightarrow> token list \<Rightarrow> int list list \<Rightarrow> nat \<Rightarrow> nat \<Rightarrow> bool" where
  "table_upto X Y L i j \<longleftrightarrow>
     table_dims X Y L \<and>
     (\<forall>i' j'. i' \<le> length X \<longrightarrow> j' \<le> length Y \<longrightarrow> (i' < i \<or> (i' = i \<and> j' < j)) \<longrightarrow>
        L ! i' ! j' = lcs_len X Y i' j')"

fun lcs_path :: "token list \<Rightarrow> token list \<Rightarrow> nat \<Rightarrow> nat \<Rightarrow> token list" where
  "lcs_path X Y 0 j = []"
| "lcs_path X Y (Suc i) 0 = []"
| "lcs_path X Y (Suc i) (Suc j) =
     (if X ! i = Y ! j then lcs_path X Y i j @ [X ! i]
      else if lcs_len X Y i (Suc j) > lcs_len X Y (Suc i) j then lcs_path X Y i (Suc j)
      else lcs_path X Y (Suc i) j)"

subsection \<open>\<^verbatim>\<open>ErrorCase.get_spans\<close>\<close>

text \<open>
  \<^verbatim>\<open>
  spans, nb_tokens = [], len(tokens_highlight)
  cur_start_idx, cur_bool_val = 0, tokens_highlight[0]
  for idx in range(nb_tokens):
      if idx == nb_tokens - 1:
          if tokens_highlight[idx] != cur_bool_val:
              spans.append((cur_start_idx, nb_tokens - 2, cur_bool_val))
              spans.append((nb_tokens - 1, nb_tokens - 1, tokens_highlight[idx]))
          else:
              spans.append((cur_start_idx, nb_tokens - 1, cur_bool_val))
      else:
          if tokens_highlight[idx] != cur_bool_val:
              spans.append((cur_start_idx, idx - 1, cur_bool_val))
              cur_start_idx, cur_bool_val = idx, tokens_highlight[idx]
  return spans
  \<close>
  A span is the tuple (start index, end index, flag); the indices are Python integers.
  \<^verbatim>\<open>tokens_highlight[0]\<close> raises \<^verbatim>\<open>IndexError\<close> on the empty list, before the loop.
  The loop state is \<open>(spans, cur_start_idx, cur_bool_val)\<close>.
\<close>

type_synonym span = "int \<times> int \<times> bool"

definition spans_step :: "bool list \<Rightarrow> nat \<Rightarrow> span list \<times> int \<times> bool \<Rightarrow> span list \<times> int \<times> bool" where
  "spans_step tokens_highlight idx s =
     (case s of (spans, cur_start_idx, cur_bool_val) \<Rightarrow>
        let nb_tokens = int (length tokens_highlight) in
        if int idx = nb_tokens - 1 then
          (if tokens_highlight ! idx \<noteq> cur_bool_val then
             (spans @ [(cur_start_idx, nb_tokens - 2, cur_bool_val),
                       (nb_tokens - 1, nb_tokens - 1, tokens_highlight ! idx)],
              cur_start_idx, cur_bool_val)
           else (spans @ [(cur_start_idx, nb_tokens - 1, cur_bool_val)],
                 cur_start_idx, cur_bool_val))
        else
          (if tokens_highlight ! idx \<noteq> cur_bool_val then
             (spans @ [(cur_start_idx, int idx - 1, cur_bool_val)],
              int idx, tokens_highlight ! idx)
           else (spans, cur_start_idx, cur_bool_val)))"

definition get_spans :: "bool list \<Rightarrow> py_error + span list" where
  "get_spans tokens_highlight =
     (case tokens_highlight of
        [] \<Rightarrow> Inl IndexError
      | b # _ \<Rightarrow>
          (case fold (spans_step tokens_highlight) [0..<length tokens_highlight] ([], 0, b) of
             (spans, _, _) \<Rightarrow> Inr spans))"

text \<open>
  \<open>tiles s spans e\<close>: the spans, in list order, are non-empty index ranges that follow
  one another without gap or overlap, from index \<open>s\<close> up to but excluding index \<open>e\<close>.
\<close>

fun tiles :: "int \<Rightarrow> span list \<Rightarrow> int \<Rightarrow> bool" where
  "tiles s [] e \<longleftrightarrow> s = e"
| "tiles s ((a, b, f) # rest) e \<longleftrightarrow> a = s \<and> a \<le> b \<and> tiles (b + 1) rest e"

subsection \<open>\<^verbatim>\<open>ErrorCase.__init__\<close>: the highlight masks\<close>

text \<open>
  \<^verbatim>\<open>
  lcs_tokens = lcs(self.target_tokens, self.pred_tokens)
  target_tokens_highlight = [False] * len(self.target_tokens)
  pred_tokens_highlight = [False] * len(self.pred_tokens)
  target_idx, pred_idx = 0, 0
  for token in lcs_tokens:
      while self.target_tokens[target_idx] != token:
          target_idx += 1
      while self.pred_tokens[pred_idx] != token:
          pred_idx += 1
      target_tokens_highlight[target_idx] = True
      pred_tokens_highlight[pred_idx] = True
      target_idx += 1
      pred_idx += 1
  \<close>
  \<open>seek\<close> is either inner \<^verbatim>\<open>while\<close> loop: reading \<^verbatim>\<open>tokens[idx]\<close> past the end raises
  \<^verbatim>\<open>IndexError\<close>. The index it returns is in range, and each mask is as long as its token
  list, so the two assignments to the masks are plain updates.
\<close>

function seek :: "token list \<Rightarrow> nat \<Rightarrow> token \<Rightarrow> py_error + nat" where
  "seek tokens idx token =
     (if idx < length tokens then
        (if tokens ! idx \<noteq> token then seek tokens (idx + 1) token else Inr idx)
      else Inl IndexError)"
  by pat_completeness auto
termination
  by (relation "measure (\<lambda>(tokens, idx, token). length tokens - idx)") auto

type_synonym mark_state = "nat \<times> nat \<times> bool list \<times> bool list"

definition mark_step ::
  "token list \<Rightarrow> token list \<Rightarrow> token \<Rightarrow> mark_state \<Rightarrow> py_error + mark_state" where
  "mark_step target_tokens pred_tokens token s =
     (case s of (target_idx, pred_idx, target_tokens_highlight, pred_tokens_highlight) \<Rightarrow>
        (case seek target_tokens target_idx token of
           Inl e \<Rightarrow> Inl e
         | Inr target_idx' \<Rightarrow>
             (case seek pred_tokens pred_idx token of
                Inl e \<Rightarrow> Inl e
              | Inr pred_idx' \<Rightarrow>
                  Inr (target_idx' + 1, pred_idx' + 1,
                       target_tokens_highlight[target_idx' := True],
                       pred_tokens_highlight[pred_idx' := True]))))"

fun mark_loop ::
  "token list \<Rightarrow> token list \<Rightarrow> token list \<Rightarrow> mark_state \<Rightarrow> py_error + mark_state" where
  "mark_loop target_tokens pred_tokens [] s = Inr s"
| "mark_loop target_tokens pred_tokens (token # lcs_tokens) s =
     (case mark_step target_tokens pred_tokens token s of
        Inl e \<Rightarrow> Inl e
      | Inr s' \<Rightarrow> mark_loop target_tokens pred_tokens lcs_tokens s')"

definition highlight_masks ::
  "token list \<Rightarrow> token list \<Rightarrow> py_error + bool list \<times> bool list" where
  "highlight_masks target_tokens pred_tokens =
     (case lcs target_tokens pred_tokens of
        Inl e \<Rightarrow> Inl e
      | Inr lcs_tokens \<Rightarrow>
          (case mark_loop target_tokens pred_tokens lcs_tokens
                  (0, 0, replicate (length target_tokens) False,
                         replicate (length pred_tokens) False) of
             Inl e \<Rightarrow> Inl e
           | Inr (target_idx, pred_idx, target_tokens_highlight, pred_tokens_highlight) \<Rightarrow>
               Inr (target_tokens_highlight, pred_tokens_highlight)))"

subsection \<open>String primitives of Python\<close>

text \<open>
  \<^verbatim>\<open>str.strip()\<close> removes the characters for which \<^verbatim>\<open>str.isspace\<close> holds from both ends;
  below code point 256 these are 0x09 to 0x0D, 0x1C to 0x20, 0x85 and 0xA0.
  \<^verbatim>\<open>str.lower()\<close> adds 0x20 to the letters \<open>A\<close> to \<open>Z\<close> and to 0xC0 to 0xDE except 0xD7.
\<close>

definition is_space :: "char \<Rightarrow> bool" where
  "is_space c =
     (let n = (of_char c :: nat)
      in (0x09 \<le> n \<and> n \<le> 0x0D) \<or> (0x1C \<le> n \<and> n \<le> 0x20) \<or> n = 0x85 \<or> n = 0xA0)"

definition py_strip :: "string \<Rightarrow> string" where
  "py_strip w = rev (dropWhile is_space (rev (dropWhile is_space w)))"

definition py_lower :: "char \<Rightarrow> char" where
  "py_lower c =
     (let n = (of_char c :: nat)
      in if (0x41 \<le> n \<and> n \<le> 0x5A) \<or> (0xC0 \<le> n \<and> n \<le> 0xDE \<and> n \<noteq> 0xD7)
         then char_of (n + 0x20) else c)"

text \<open>\<^verbatim>\<open>w.replace(a, b)\<close> for one-character strings \<open>a\<close> and \<open>b\<close>.\<close>

definition replace_char :: "char \<Rightarrow> char \<Rightarrow> string \<Rightarrow> string" where
  "replace_char a b w = map (\<lambda>c. if c = a then b else c) w"

text \<open>\<^verbatim>\<open>w.replace("``", "")\<close>: the occurrences are found from the left and do not overlap.\<close>

fun remove_backticks :: "string \<Rightarrow> string" where
  "remove_backticks (a # b # rest) =
     (if a = CHR 0x60 \<and> b = CHR 0x60 then remove_backticks rest
      else a # remove_backticks (b # rest))"
| "remove_backticks w = w"

text \<open>\<^verbatim>\<open>w.split(' ')\<close>: never empty, an empty string between two adjacent spaces.\<close>

fun py_split :: "string \<Rightarrow> token list" where
  "py_split [] = [[]]"
| "py_split (c # cs) =
     (if c = CHR '' '' then [] # py_split cs
      else (c # hd (py_split cs)) # tl (py_split cs))"

text \<open>\<^verbatim>\<open>" ".join(ws)\<close>\<close>

fun py_join :: "token list \<Rightarrow> string" where
  "py_join [] = []"
| "py_join [w] = w"
| "py_join (w # v # ws) = w @ '' '' @ py_join (v # ws)"

text \<open>\<^verbatim>\<open>xs[a:b]\<close>: a negative bound counts from the end, and both bounds are clipped.\<close>

definition py_slice :: "'a list \<Rightarrow> int \<Rightarrow> int \<Rightarrow> 'a list" where
  "py_slice xs a b =
     (let n = int (length xs);
          lo = (if a < 0 then max (a + n) 0 else min a n);
          hi = (if b < 0 then max (b + n) 0 else min b n)
      in take (nat (hi - lo)) (drop (nat lo) xs))"

subsection \<open>\<^verbatim>\<open>_remove_punctuation\<close>\<close>

text \<open>
  \<^verbatim>\<open>
  def _remove_punctuation(word: str, remove_spaces=True, do_lower=True):
      """
      Removes all punctuation marks from a word except for "'" that is often a part of word: don't, it's, and so on
      """
      all_punct_marks = string.punctuation
      word = re.sub('[' + all_punct_marks + ']', '', word)
      if remove_spaces:
          word = word.replace(" ", "").replace(NBSP, "").strip()
      if do_lower:
          word = word.lower()
      return word
  \<close>
  (\<^verbatim>\<open>NBSP\<close> stands for the source's literal of the no-break space, code point 0xA0.)
  The function is named \<open>u_remove_punctuation\<close> here, a name cannot start with an
  underscore. \<^verbatim>\<open>string.punctuation\<close> is the 32 ASCII punctuation characters. Between the
  brackets of the regular expression its \<^verbatim>\<open>,-.\<close> is a range (of the same three
  characters) and its backslash escapes the \<^verbatim>\<open>]\<close> that follows, so the class holds
  every punctuation character except the backslash: 0x21 to 0x2F, 0x3A to 0x40, 0x5B,
  0x5D to 0x60 and 0x7B to 0x7E. The apostrophe, 0x27, is one of them.
\<close>

definition in_punct_class :: "char \<Rightarrow> bool" where
  "in_punct_class c =
     (let n = (of_char c :: nat)
      in (0x21 \<le> n \<and> n \<le> 0x2F) \<or> (0x3A \<le> n \<and> n \<le> 0x40) \<or> n = 0x5B \<or>
         (0x5D \<le> n \<and> n \<le> 0x60) \<or> (0x7B \<le> n \<and> n \<le> 0x7E))"

definition u_remove_punctuation :: "string \<Rightarrow> bool \<Rightarrow> bool \<Rightarrow> string" where
  "u_remove_punctuation word remove_spaces do_lower =
     (let word1 = filter (\<lambda>c. \<not> in_punct_class c) word;
          word2 = (if remove_spaces
                   then py_strip (filter (\<lambda>c. c \<noteq> CHR 0xA0) (filter (\<lambda>c. c \<noteq> CHR '' '') word1))
                   else word1)
      in if do_lower then map py_lower word2 else word2)"

subsection \<open>The classification chain\<close>

text \<open>
  What the code does besides computing is recorded as a list of events: a line printed
  (\<^verbatim>\<open>print\<close> joins its arguments with one space), a line printed from a label and a
  counter, a call of \<^verbatim>\<open>normalizer.normalize\<close> with its text argument, and a stop in the
  debugger (\<^verbatim>\<open>pdb.set_trace()\<close>).

  The four counters are local variables of the enclosing function. In
  \<^verbatim>\<open>filter_out_acceptable_errors\<close> they are set to 0 before the loop. In
  \<^verbatim>\<open>ErrorCase.__init__\<close> they are only ever the target of \<^verbatim>\<open>+= 1\<close>, so they are local
  and unbound, and \<^verbatim>\<open>+= 1\<close> raises \<^verbatim>\<open>UnboundLocalError\<close>. A counter is therefore an
  \<open>int option\<close>, \<open>None\<close> when unbound.
\<close>

datatype event = Print string | PrintCount string int | Normalize string | Breakpoint

record frame =
  correct_with_no_punct :: "int option"
  correct_with_zs :: "int option"
  acceptable_error :: "int option"
  wrong :: "int option"
  out :: "event list"

definition emit :: "event \<Rightarrow> frame \<Rightarrow> frame" where
  "emit e s = s\<lparr>out := out s @ [e]\<rparr>"

text \<open>
  The chain is the same text in \<^verbatim>\<open>ErrorCase.__init__\<close> (lines 166 to 188) and in
  \<^verbatim>\<open>filter_out_acceptable_errors\<close> (lines 327 to 349):
  \<^verbatim>\<open>
  pred_no_punct = _remove_punctuation(pred).strip()
  target_no_punct = _remove_punctuation(target).strip()
  if pred_no_punct == target_no_punct:
      correct_with_no_punct += 1
  elif pred_no_punct.replace("s", "z") == target_no_punct.replace("s", "z"):
      correct_with_zs += 1
  else:
      wfst_pred = normalizer.normalize(_input.replace("``", "").strip(), n_tagged=100000)
      wfst_pred = [remove_punctuation(x) for x in wfst_pred]
      if pred_no_punct in wfst_pred:
          acceptable_error += 1
      else:
          if "Amenhotep" in _input:
              import pdb
              pdb.set_trace()
              print()
          print('input: ', _input)
          print('nn...:', pred)
          print('target:', target)
          print("-" * 40)
          wrong += 1
  \<close>
  Its parameters: \<open>normalizer\<close> is the external normalizer, \<open>None\<close> for Python's
  \<^verbatim>\<open>None\<close> (the default of \<^verbatim>\<open>__init__\<close>), else the function \<^verbatim>\<open>normalize\<close> computes, which
  returns the alternatives or raises. \<open>remove_punctuation\<close> is the global of that name:
  the module defines and imports only \<^verbatim>\<open>_remove_punctuation\<close>, so the name is unbound
  (\<open>None\<close>) unless bound from outside, and calling it raises \<^verbatim>\<open>NameError\<close>; the list
  comprehension calls it once per alternative, not at all for an empty list.
  \<open>input\<close> is the local \<^verbatim>\<open>_input\<close>, unbound in \<^verbatim>\<open>filter_out_acceptable_errors\<close> until a
  line sets it.
\<close>

definition increment :: "int option \<Rightarrow> py_error + int option" where
  "increment v = (case v of None \<Rightarrow> Inl UnboundLocalError | Some n \<Rightarrow> Inr (Some (n + 1)))"

definition comprehension :: "(string \<Rightarrow> string) option \<Rightarrow> string list \<Rightarrow> py_error + string list" where
  "comprehension remove_punctuation wfst_pred =
     (case wfst_pred of
        [] \<Rightarrow> Inr []
      | x # xs \<Rightarrow>
          (case remove_punctuation of
             None \<Rightarrow> Inl NameError
           | Some f \<Rightarrow> Inr (map f wfst_pred)))"

definition report_wrong :: "string \<Rightarrow> string \<Rightarrow> string \<Rightarrow> frame \<Rightarrow> frame" where
  "report_wrong input pred target s =
     (let s1 = (if sublist ''Amenhotep'' input then emit (Print []) (emit Breakpoint s) else s)
      in emit (Print (replicate 40 CHR ''-''))
           (emit (Print (''target: '' @ target))
              (emit (Print (''nn...: '' @ pred))
                 (emit (Print (''input:  '' @ input)) s1))))"

definition classify_block ::
  "(string \<Rightarrow> py_error + string list) option \<Rightarrow> (string \<Rightarrow> string) option \<Rightarrow>
   string option \<Rightarrow> string \<Rightarrow> string \<Rightarrow> frame \<Rightarrow> frame \<times> py_error option" where
  "classify_block normalizer remove_punctuation input pred target s =
     (let pred_no_punct = py_strip (u_remove_punctuation pred True True);
          target_no_punct = py_strip (u_remove_punctuation target True True)
      in if pred_no_punct = target_no_punct then
           (case increment (correct_with_no_punct s) of
              Inl e \<Rightarrow> (s, Some e)
            | Inr v \<Rightarrow> (s\<lparr>correct_with_no_punct := v\<rparr>, None))
         else if replace_char CHR ''s'' CHR ''z'' pred_no_punct =
                 replace_char CHR ''s'' CHR ''z'' target_no_punct then
           (case increment (correct_with_zs s) of
              Inl e \<Rightarrow> (s, Some e)
            | Inr v \<Rightarrow> (s\<lparr>correct_with_zs := v\<rparr>, None))
         else
           (case normalizer of
              None \<Rightarrow> (s, Some AttributeError)
            | Some normalize_text \<Rightarrow>
                (case input of
                   None \<Rightarrow> (s, Some UnboundLocalError)
                 | Some inp \<Rightarrow>
                     (let text = py_strip (remove_backticks inp);
                          s1 = emit (Normalize text) s
                      in case normalize_text text of
                           Inl e \<Rightarrow> (s1, Some e)
                         | Inr wfst_pred \<Rightarrow>
                             (case comprehension remove_punctuation wfst_pred of
                                Inl e \<Rightarrow> (s1, Some e)
                              | Inr wfst_pred' \<Rightarrow>
                                  if pred_no_punct \<in> set wfst_pred' then
                                    (case increment (acceptable_error s1) of
                                       Inl e \<Rightarrow> (s1, Some e)
                                     | Inr v \<Rightarrow> (s1\<lparr>acceptable_error := v\<rparr>, None))
                                  else
                                    (let s2 = report_wrong inp pred target s1
                                     in case increment (wrong s2) of
                                          Inl e \<Rightarrow> (s2, Some e)
                                        | Inr v \<Rightarrow> (s2\<lparr>wrong := v\<rparr>, None)))))))"

text \<open>
  The number of verdicts a frame holds: the sum of its four counters, an unbound counter
  counting as zero. Every verdict of the chain is one \<^verbatim>\<open>+= 1\<close> on one of them.
\<close>

definition bound_value :: "int option \<Rightarrow> int" where
  "bound_value v = (case v of None \<Rightarrow> 0 | Some n \<Rightarrow> n)"

definition verdicts :: "frame \<Rightarrow> int" where
  "verdicts s =
     bound_value (correct_with_no_punct s) + bound_value (correct_with_zs s) +
     bound_value (acceptable_error s) + bound_value (wrong s)"

subsection \<open>\<^verbatim>\<open>ErrorCase.__init__\<close>: the loop over the span pairs\<close>

text \<open>
  \<^verbatim>\<open>
  for pred_span, target_span in zip(self.pred_spans, self.target_spans):
      start_pred, end_pred, no_error_pred = pred_span
      start_target, end_target, no_error_target = target_span
      " ".join(self.pred_tokens[start_pred: end_pred + 1])
      print('target:', " ".join(self.target_tokens[start_target: end_target + 1]))
      if not no_error_pred:
          if no_error_target:
              print("????")
          (the classification chain)
          print('pred  :', " ".join(self.pred_tokens[start_pred: end_pred + 1]))
          print('target:', " ".join(self.target_tokens[start_target: end_target + 1]))
  print()
  \<close>
  The chain is given the whole strings \<^verbatim>\<open>pred\<close> and \<^verbatim>\<open>target\<close> of the case, not the text
  of the two spans. An exception leaves the loop and the constructor.
\<close>

definition span_line :: "string \<Rightarrow> token list \<Rightarrow> span \<Rightarrow> event" where
  "span_line label tokens sp =
     (case sp of (start_idx, end_idx, flag) \<Rightarrow>
        Print (label @ '' '' @ py_join (py_slice tokens start_idx (end_idx + 1))))"

definition span_body ::
  "(string \<Rightarrow> py_error + string list) option \<Rightarrow> (string \<Rightarrow> string) option \<Rightarrow>
   string \<Rightarrow> string \<Rightarrow> string \<Rightarrow> token list \<Rightarrow> token list \<Rightarrow>
   span \<times> span \<Rightarrow> frame \<Rightarrow> frame \<times> py_error option" where
  "span_body normalizer remove_punctuation input target pred target_tokens pred_tokens pair s =
     (case pair of (pred_span, target_span) \<Rightarrow>
        let no_error_pred = snd (snd pred_span);
            no_error_target = snd (snd target_span);
            s1 = emit (span_line ''target:'' target_tokens target_span) s
        in if \<not> no_error_pred then
             (let s2 = (if no_error_target then emit (Print ''????'') s1 else s1)
              in case classify_block normalizer remove_punctuation (Some input) pred target s2 of
                   (s3, Some e) \<Rightarrow> (s3, Some e)
                 | (s3, None) \<Rightarrow>
                     (emit (span_line ''target:'' target_tokens target_span)
                        (emit (span_line ''pred  :'' pred_tokens pred_span) s3), None))
           else (s1, None))"

fun span_loop ::
  "(string \<Rightarrow> py_error + string list) option \<Rightarrow> (string \<Rightarrow> string) option \<Rightarrow>
   string \<Rightarrow> string \<Rightarrow> string \<Rightarrow> token list \<Rightarrow> token list \<Rightarrow>
   (span \<times> span) list \<Rightarrow> frame \<Rightarrow> frame \<times> py_error option" where
  "span_loop normalizer remove_punctuation input target pred target_tokens pred_tokens [] s =
     (s, None)"
| "span_loop normalizer remove_punctuation input target pred target_tokens pred_tokens
     (pair # pairs) s =
     (case span_body normalizer remove_punctuation input target pred target_tokens pred_tokens
             pair s of
        (s', Some e) \<Rightarrow> (s', Some e)
      | (s', None) \<Rightarrow>
          span_loop normalizer remove_punctuation input target pred target_tokens pred_tokens
            pairs s')"

subsection \<open>\<^verbatim>\<open>ErrorCase.__init__\<close>\<close>

text \<open>
  The constructor stores its arguments, splits the two strings at single spaces, computes
  the masks and the spans, and runs the loop over the span pairs; the result is the events
  and either the exception raised or the object. The two lists of unhighlighted spans it
  also builds are never read and are left out. Its four counters start unbound.
\<close>

record error_case =
  ec_input :: string
  ec_target :: string
  ec_pred :: string
  ec_mode :: string
  ec_classes :: string
  ec_target_tokens :: "token list"
  ec_pred_tokens :: "token list"
  ec_target_spans :: "span list"
  ec_pred_spans :: "span list"

definition init_frame :: frame where
  "init_frame = \<lparr>correct_with_no_punct = None, correct_with_zs = None,
                  acceptable_error = None, wrong = None, out = []\<rparr>"

definition ErrorCase_init ::
  "(string \<Rightarrow> string) option \<Rightarrow> string \<Rightarrow> string \<Rightarrow> string \<Rightarrow> string \<Rightarrow> string \<Rightarrow>
   (string \<Rightarrow> py_error + string list) option \<Rightarrow> event list \<times> (py_error + error_case)" where
  "ErrorCase_init remove_punctuation input target pred classes mode normalizer =
     (let target_tokens = py_split target;
          pred_tokens = py_split pred
      in case highlight_masks target_tokens pred_tokens of
           Inl e \<Rightarrow> ([], Inl e)
         | Inr (target_tokens_highlight, pred_tokens_highlight) \<Rightarrow>
             (case get_spans target_tokens_highlight of
                Inl e \<Rightarrow> ([], Inl e)
              | Inr target_spans \<Rightarrow>
                  (case get_spans pred_tokens_highlight of
                     Inl e \<Rightarrow> ([], Inl e)
                   | Inr pred_spans \<Rightarrow>
                       (case span_loop normalizer remove_punctuation input target pred
                               target_tokens pred_tokens (zip pred_spans target_spans)
                               init_frame of
                          (s, Some e) \<Rightarrow> (out s, Inl e)
                        | (s, None) \<Rightarrow>
                            (out (emit (Print []) s),
                             Inr \<lparr>ec_input = input, ec_target = target, ec_pred = pred,
                                  ec_mode = mode, ec_classes = classes,
                                  ec_target_tokens = target_tokens,
                                  ec_pred_tokens = pred_tokens,
                                  ec_target_spans = target_spans,
                                  ec_pred_spans = pred_spans\<rparr>)))))"

subsection \<open>\<^verbatim>\<open>filter_out_acceptable_errors\<close>\<close>

text \<open>
  \<^verbatim>\<open>
  def filter_out_acceptable_errors(input: str, pred: str, target: str):
      if not PYNINI_AVAILABLE:
          return
      normalizer = NormalizerWithAudio(...)
      original_wrong = 0
      wrong = 0
      correct_with_no_punct = 0
      correct_with_zs = 0
      acceptable_error = 0
      with open(input_file, 'r') as f:
          for line in f:
              if line.startswith('Original Input'):
                  _input = line[line.find(':') + 1:].strip()
              elif line.startswith('Predicted Str'):
                  pred = line[line.find(':') + 1:].strip()
              elif line.startswith('Ground-Truth'):
                  target = line[line.find(':') + 1:].strip()
                  original_wrong += 1
                  (the classification chain)
      print(f'original wrong: {original_wrong}')
      print(f'wrong: {wrong}')
      print(f'no punct correct: {correct_with_no_punct}')
      print(f's z correct: {correct_with_zs}')
      print(f'Acceptable error: {acceptable_error}')
  \<close>
  \<open>PYNINI_AVAILABLE\<close> is the module's flag. \<open>normalizer\<close> is what \<^verbatim>\<open>normalize\<close> of the
  constructed \<^verbatim>\<open>NormalizerWithAudio\<close> computes. \<open>input_file\<close> is a global the module
  never binds: \<open>None\<close> is that state, in which \<^verbatim>\<open>open(input_file, 'r')\<close> raises
  \<^verbatim>\<open>NameError\<close>; \<open>Some lines\<close> is the global bound to a readable file with these lines.
  The loop state is \<open>(original_wrong, frame, _input, pred, target)\<close>.
\<close>

definition py_find :: "char \<Rightarrow> string \<Rightarrow> int" where
  "py_find c w = (if c \<in> set w then int (length (takeWhile (\<lambda>d. d \<noteq> c) w)) else - 1)"

definition line_value :: "string \<Rightarrow> string" where
  "line_value line = py_strip (drop (nat (py_find CHR '':'' line + 1)) line)"

type_synonym filter_state = "int \<times> frame \<times> string option \<times> string \<times> string"

definition filter_line ::
  "(string \<Rightarrow> py_error + string list) \<Rightarrow> (string \<Rightarrow> string) option \<Rightarrow>
   string \<Rightarrow> filter_state \<Rightarrow> filter_state \<times> py_error option" where
  "filter_line normalizer remove_punctuation line st =
     (case st of (original_wrong, s, input, pred, target) \<Rightarrow>
        if prefix ''Original Input'' line then
          ((original_wrong, s, Some (line_value line), pred, target), None)
        else if prefix ''Predicted Str'' line then
          ((original_wrong, s, input, line_value line, target), None)
        else if prefix ''Ground-Truth'' line then
          (let target' = line_value line
           in case classify_block (Some normalizer) remove_punctuation input pred target' s of
                (s', err) \<Rightarrow> ((original_wrong + 1, s', input, pred, target'), err))
        else (st, None))"

fun filter_loop ::
  "(string \<Rightarrow> py_error + string list) \<Rightarrow> (string \<Rightarrow> string) option \<Rightarrow>
   string list \<Rightarrow> filter_state \<Rightarrow> filter_state \<times> py_error option" where
  "filter_loop normalizer remove_punctuation [] st = (st, None)"
| "filter_loop normalizer remove_punctuation (line # lines) st =
     (case filter_line normalizer remove_punctuation line st of
        (st', Some e) \<Rightarrow> (st', Some e)
      | (st', None) \<Rightarrow> filter_loop normalizer remove_punctuation lines st')"

definition zero_frame :: frame where
  "zero_frame = \<lparr>correct_with_no_punct = Some 0, correct_with_zs = Some 0,
                  acceptable_error = Some 0, wrong = Some 0, out = []\<rparr>"

definition filter_out_acceptable_errors ::
  "bool \<Rightarrow> (string \<Rightarrow> py_error + string list) \<Rightarrow> (string \<Rightarrow> string) option \<Rightarrow>
   string list option \<Rightarrow> string \<Rightarrow> string \<Rightarrow> string \<Rightarrow> event list \<times> py_error option" where
  "filter_out_acceptable_errors PYNINI_AVAILABLE normalizer remove_punctuation input_file
     input pred target =
     (if \<not> PYNINI_AVAILABLE then ([], None)
      else case input_file of
             None \<Rightarrow> ([], Some NameError)
           | Some lines \<Rightarrow>
               (case filter_loop normalizer remove_punctuation lines
                       (0, zero_frame, None, pred, target) of
                  ((original_wrong, s, _), Some e) \<Rightarrow> (out s, Some e)
                | ((original_wrong, s, _), None) \<Rightarrow>
                    (case (wrong s, correct_with_no_punct s, correct_with_zs s,
                           acceptable_error s) of
                       (Some w, Some p, Some z, Some a) \<Rightarrow>
                         (out s @ [PrintCount ''original wrong: '' original_wrong,
                                   PrintCount ''wrong: '' w,
                                   PrintCount ''no punct correct: '' p,
                                   PrintCount ''s z correct: '' z,
                                   PrintCount ''Acceptable error: '' a], None)
                     | _ \<Rightarrow> (out s, Some UnboundLocalError))))"

subsection \<open>The covering-grammar fallback of \<^verbatim>\<open>class_based_evaluation_cg.main\<close>\<close>

text \<open>
  \<^verbatim>\<open>
  if is_url(_input):
      _input = _input.replace(' ', '')  # Remove spaces in URLs
  try:
      cg_outputs = transformer_model.cg_normalizer.normalize(text=_input, verbose=False, n_tagged=1)
      batch_preds[ix] = list(cg_outputs)[0]
  except:  # if there is any exception, fall back to the input
      batch_preds[ix] = _input
  \<close>
  \<open>is_url\<close> is imported from a module outside these sources and is a parameter, as is what
  the covering-grammar normalizer computes. The result is the new \<^verbatim>\<open>batch_preds[ix]\<close>. The
  bare \<^verbatim>\<open>except\<close> also catches the \<^verbatim>\<open>IndexError\<close> of \<^verbatim>\<open>list(cg_outputs)[0]\<close> on an empty
  result.
\<close>

text \<open>Two stand-ins for the external normalizer: one finds no alternative, one raises.\<close>

definition no_alternatives :: "string \<Rightarrow> py_error + string list" where
  "no_alternatives text = Inr []"

definition failing_normalizer :: "string \<Rightarrow> py_error + string list" where
  "failing_normalizer text = Inl NormalizerError"

definition cg_fallback ::
  "(string \<Rightarrow> bool) \<Rightarrow> (string \<Rightarrow> py_error + string list) \<Rightarrow> string \<Rightarrow> string" where
  "cg_fallback is_url cg_normalize input =
     (let input' = (if is_url input then filter (\<lambda>c. c \<noteq> CHR '' '') input else input)
      in case cg_normalize input' of
           Inl e \<Rightarrow> input'
         | Inr cg_outputs \<Rightarrow> (case cg_outputs of [] \<Rightarrow> input' | x # xs \<Rightarrow> x))"

section \<open>Properties\<close>

subsection \<open>The table satisfies the recurrence\<close>

lemma lcs_len_unfold:
  "lcs_len X Y i j =
     (if i = 0 \<or> j = 0 then 0
      else if X ! (i - 1) = Y ! (j - 1) then lcs_len X Y (i - 1) (j - 1) + 1
      else max (lcs_len X Y (i - 1) j) (lcs_len X Y i (j - 1)))"
  by (cases i; cases j) simp_all

lemma set_cell_nth:
  assumes "table_dims X Y L" "i \<le> length X" "j \<le> length Y" "i' \<le> length X" "j' \<le> length Y"
  shows "set_cell L i j v ! i' ! j' = (if i' = i \<and> j' = j then v else L ! i' ! j')"
  using assms by (auto simp: set_cell_def table_dims_def nth_list_update)

lemma set_cell_dims:
  assumes "table_dims X Y L"
  shows "table_dims X Y (set_cell L i j v)"
proof -
  have "length (L[i := (L ! i)[j := v]] ! r) = length (L ! r)" if "r < length L" for r
    using that by (cases "r = i") simp_all
  then show ?thesis
    using assms by (simp add: set_cell_def table_dims_def)
qed

lemma cell_value_upto:
  assumes "table_upto X Y L i j" "i \<le> length X" "j \<le> length Y"
  shows "cell_value X Y L i j = lcs_len X Y i j"
proof -
  have *: "L ! i' ! j' = lcs_len X Y i' j'"
    if "i' \<le> length X" "j' \<le> length Y" "i' < i \<or> (i' = i \<and> j' < j)" for i' j'
    using assms(1) that unfolding table_upto_def by blast
  show ?thesis
  proof (cases "i = 0 \<or> j = 0")
    case True
    then show ?thesis by (subst lcs_len_unfold) (simp add: cell_value_def)
  next
    case False
    then have ij: "0 < i" "0 < j" by auto
    have a: "L ! (i - 1) ! (j - 1) = lcs_len X Y (i - 1) (j - 1)"
      using ij assms(2,3) by (intro *) auto
    have b: "L ! (i - 1) ! j = lcs_len X Y (i - 1) j"
      using ij assms(2,3) by (intro *) auto
    have c: "L ! i ! (j - 1) = lcs_len X Y i (j - 1)"
      using ij assms(2,3) by (intro *) auto
    show ?thesis
      using False a b c by (subst lcs_len_unfold) (simp add: cell_value_def)
  qed
qed

lemma set_cell_upto:
  assumes "table_upto X Y L i j" "i \<le> length X" "j \<le> length Y"
  shows "table_upto X Y (set_cell L i j (cell_value X Y L i j)) i (Suc j)"
proof -
  have d: "table_dims X Y L" using assms(1) by (simp add: table_upto_def)
  have v: "cell_value X Y L i j = lcs_len X Y i j"
    using assms by (rule cell_value_upto)
  show ?thesis
    unfolding table_upto_def
  proof (intro conjI allI impI)
    show "table_dims X Y (set_cell L i j (cell_value X Y L i j))"
      using d by (rule set_cell_dims)
  next
    fix i' j'
    assume h: "i' \<le> length X" "j' \<le> length Y" "i' < i \<or> i' = i \<and> j' < Suc j"
    have "set_cell L i j (cell_value X Y L i j) ! i' ! j' =
          (if i' = i \<and> j' = j then cell_value X Y L i j else L ! i' ! j')"
      using d assms(2,3) h(1,2) by (rule set_cell_nth)
    moreover have "L ! i' ! j' = lcs_len X Y i' j'" if "\<not> (i' = i \<and> j' = j)"
      using assms(1) h that unfolding table_upto_def by (metis less_Suc_eq)
    ultimately show "set_cell L i j (cell_value X Y L i j) ! i' ! j' = lcs_len X Y i' j'"
      using v by auto
  qed
qed

lemma fill_row_prefix:
  assumes "table_upto X Y L i 0" "i \<le> length X" "k \<le> length Y + 1"
  shows "table_upto X Y
           (fold (\<lambda>j L'. set_cell L' i j (cell_value X Y L' i j)) [0..<k] L) i k"
  using assms(3)
proof (induction k)
  case 0
  then show ?case using assms(1) by simp
next
  case (Suc k)
  then have "table_upto X Y
      (fold (\<lambda>j L'. set_cell L' i j (cell_value X Y L' i j)) [0..<k] L) i k" by simp
  then show ?case
    using Suc.prems assms(2) by (simp add: set_cell_upto)
qed

lemma table_upto_next_row:
  assumes "table_upto X Y L i (length Y + 1)"
  shows "table_upto X Y L (Suc i) 0"
  using assms unfolding table_upto_def by (auto simp: less_Suc_eq_le le_less)

lemma fill_row_upto:
  assumes "table_upto X Y L i 0" "i \<le> length X"
  shows "table_upto X Y (fill_row X Y i L) (Suc i) 0"
  unfolding fill_row_def
  by (rule table_upto_next_row) (rule fill_row_prefix [OF assms], simp)

lemma init_table_upto: "table_upto X Y (init_table (length X) (length Y)) 0 0"
  by (simp add: table_upto_def table_dims_def init_table_def del: replicate.simps replicate_Suc)

lemma fill_rows_prefix:
  assumes "k \<le> length X + 1"
  shows "table_upto X Y
           (fold (fill_row X Y) [0..<k] (init_table (length X) (length Y))) k 0"
  using assms
proof (induction k)
  case 0
  then show ?case by (simp add: init_table_upto)
next
  case (Suc k)
  then show ?case by (simp add: fill_row_upto)
qed

lemma lcs_table_upto: "table_upto X Y (lcs_table X Y) (length X + 1) 0"
  unfolding lcs_table_def by (rule fill_rows_prefix) simp

lemma lcs_table_eq:
  assumes "i \<le> length X" "j \<le> length Y"
  shows "lcs_table X Y ! i ! j = lcs_len X Y i j"
  using lcs_table_upto [of X Y] assms unfolding table_upto_def by auto

subsection \<open>The backtracking loop collects \<open>lcs_path\<close>\<close>

lemma lcs_len_nonneg: "0 \<le> lcs_len X Y i j"
  by (induction X Y i j rule: lcs_len.induct) auto

lemma length_lcs_path: "int (length (lcs_path X Y i j)) = lcs_len X Y i j"
  by (induction X Y i j rule: lcs_path.induct) auto

lemma py_set_in_range:
  assumes "0 \<le> k" "nat k < length xs"
  shows "py_set xs k v = Inr (xs[nat k := v])"
  using assms by (simp add: py_set_def Let_def)

lemma drop_update_here:
  assumes "k < length xs"
  shows "drop k (xs[k := v]) = v # drop (Suc k) xs"
  using assms by (metis Cons_nth_drop_Suc drop_update_cancel length_list_update lessI nth_list_update_eq)

lemma lcs_loop_path:
  assumes agree: "\<forall>i' \<le> length X. \<forall>j' \<le> length Y. L ! i' ! j' = lcs_len X Y i' j'"
  shows "i \<le> length X \<Longrightarrow> j \<le> length Y \<Longrightarrow> index = lcs_len X Y i j \<Longrightarrow>
         nat index < length acc \<Longrightarrow>
         \<exists>i' j'. lcs_loop X Y L (i, j, index, acc) =
                   Inr (i', j', 0, lcs_path X Y i j @ drop (nat index) acc)"
proof (induction "i + j" arbitrary: i j index acc rule: less_induct)
  case less
  show ?case
  proof (cases "0 < i \<and> 0 < j")
    case False
    then have "lcs_len X Y i j = 0" "lcs_path X Y i j = []"
      by (cases i; cases j; simp)+
    with False less.prems show ?thesis by auto
  next
    case True
    then obtain i0 j0 where ij: "i = Suc i0" "j = Suc j0"
      by (metis Suc_pred)
    have bounds: "i0 \<le> length X" "j0 \<le> length Y" using less.prems ij by simp_all
    show ?thesis
    proof (cases "X ! i0 = Y ! j0")
      case same: True
      have idx: "index = lcs_len X Y i0 j0 + 1" using less.prems(3) ij same by simp
      then have pos: "0 \<le> index - 1" using lcs_len_nonneg [of X Y i0 j0] by simp
      have inr: "nat (index - 1) < length acc" using less.prems(4) pos by simp
      have step: "lcs_step X Y L (i, j, index, acc) =
                    Inr (i0, j0, index - 1, acc[nat (index - 1) := X ! i0])"
        using same ij py_set_in_range [OF pos inr] by (simp add: lcs_step_def)
      have "\<exists>i' j'. lcs_loop X Y L (i0, j0, index - 1, acc[nat (index - 1) := X ! i0]) =
              Inr (i', j', 0, lcs_path X Y i0 j0 @
                   drop (nat (index - 1)) (acc[nat (index - 1) := X ! i0]))"
        using bounds idx inr ij by (intro less.hyps) simp_all
      moreover have "drop (nat (index - 1)) (acc[nat (index - 1) := X ! i0]) =
                     X ! i0 # drop (nat index) acc"
      proof -
        have "Suc (nat (index - 1)) = nat index" using pos by simp
        then show ?thesis using drop_update_here [OF inr] by simp
      qed
      ultimately show ?thesis
        using True step same ij by (subst lcs_loop.simps) simp
    next
      case diff: False
      show ?thesis
      proof (cases "L ! i0 ! j > L ! i ! j0")
        case up: True
        have gt: "lcs_len X Y i0 (Suc j0) > lcs_len X Y (Suc i0) j0"
          using up agree bounds less.prems(1,2) ij by simp
        have step: "lcs_step X Y L (i, j, index, acc) = Inr (i0, j, index, acc)"
          using diff up ij by (simp add: lcs_step_def)
        have idx: "index = lcs_len X Y i0 j"
          using less.prems(3) ij diff gt by simp
        have "\<exists>i' j'. lcs_loop X Y L (i0, j, index, acc) =
                Inr (i', j', 0, lcs_path X Y i0 j @ drop (nat index) acc)"
          using bounds idx less.prems ij by (intro less.hyps) simp_all
        then show ?thesis
          using True step diff gt ij by (subst lcs_loop.simps) simp
      next
        case left: False
        have ngt: "\<not> lcs_len X Y i0 (Suc j0) > lcs_len X Y (Suc i0) j0"
          using left agree bounds less.prems(1,2) ij by simp
        have step: "lcs_step X Y L (i, j, index, acc) = Inr (i, j0, index, acc)"
          using diff left ij by (simp add: lcs_step_def)
        have idx: "index = lcs_len X Y i j0"
          using less.prems(3) ij diff ngt by simp
        have "\<exists>i' j'. lcs_loop X Y L (i, j0, index, acc) =
                Inr (i', j', 0, lcs_path X Y i j0 @ drop (nat index) acc)"
          using bounds idx less.prems ij by (intro less.hyps) simp_all
        then show ?thesis
          using True step diff ngt ij by (subst lcs_loop.simps) simp
      qed
    qed
  qed
qed

lemma lcs_eq_path: "lcs X Y = Inr (lcs_path X Y (length X) (length Y))"
proof -
  let ?L = "lcs_table X Y"
  let ?index = "?L ! length X ! length Y"
  have agree: "\<forall>i' \<le> length X. \<forall>j' \<le> length Y. ?L ! i' ! j' = lcs_len X Y i' j'"
    by (simp add: lcs_table_eq)
  have idx: "?index = lcs_len X Y (length X) (length Y)" by (simp add: lcs_table_eq)
  have nn: "0 \<le> ?index" by (simp add: idx lcs_len_nonneg)
  let ?acc = "replicate (nat (?index + 1)) ([]::token)"
  have len: "nat ?index < length ?acc" using nn by simp
  have set: "py_set ?acc ?index [] = Inr ?acc"
    using py_set_in_range [OF nn len, of "[]"] nn by (simp add: list_update_same_conv)
  obtain i' j' where loop: "lcs_loop X Y ?L (length X, length Y, ?index, ?acc) =
      Inr (i', j', 0, lcs_path X Y (length X) (length Y) @ drop (nat ?index) ?acc)"
    using lcs_loop_path [OF agree _ _ idx len] by auto
  have "drop (nat ?index) ?acc = replicate (nat (?index + 1) - nat ?index) []"
    by (simp only: drop_replicate)
  also have "nat (?index + 1) - nat ?index = 1" using nn by simp
  finally have "drop (nat ?index) ?acc = [[]]" by simp
  then show ?thesis
    using set loop by (simp add: lcs_def Let_def)
qed

lemma lcs_path_subseq_left: "i \<le> length X \<Longrightarrow> subseq (lcs_path X Y i j) (take i X)"
proof (induction X Y i j rule: lcs_path.induct)
  case (3 X Y i j)
  then show ?case
    by (auto simp: take_Suc_conv_app_nth intro: subseq_rev_drop_many)
qed simp_all

lemma lcs_path_subseq_right: "j \<le> length Y \<Longrightarrow> subseq (lcs_path X Y i j) (take j Y)"
proof (induction X Y i j rule: lcs_path.induct)
  case (3 X Y i j)
  then show ?case
    by (auto simp: take_Suc_conv_app_nth intro: subseq_rev_drop_many)
qed simp_all

lemma lcs_path_same: "k \<le> length X \<Longrightarrow> lcs_path X X k k = take k X"
  by (induction k) (simp_all add: take_Suc_conv_app_nth)

subsection \<open>Invariant of the loop of \<^verbatim>\<open>get_spans\<close>\<close>

lemma tiles_snoc:
  assumes "tiles s xs m" "m \<le> b"
  shows "tiles s (xs @ [(m, b, f)]) (b + 1)"
  using assms by (induction s xs m rule: tiles.induct) auto

lemma tiles_le: "tiles s xs e \<Longrightarrow> s \<le> e"
  by (induction s xs e rule: tiles.induct) auto

lemma tiles_bounds:
  assumes "tiles s xs e" "(a, b, f) \<in> set xs"
  shows "s \<le> a \<and> a \<le> b \<and> b < e"
  using assms
proof (induction s xs e rule: tiles.induct)
  case (2 s a' b' f' rest e)
  from "2.prems"(1) have "tiles (b' + 1) rest e" by simp
  then have "b' + 1 \<le> e" by (rule tiles_le)
  with 2 show ?case by auto
qed simp

lemma tiles_union:
  assumes "tiles s xs e"
  shows "(\<Union>(a, b, f) \<in> set xs. {a..b}) = {s..e - 1}"
  using assms
proof (induction s xs e rule: tiles.induct)
  case (2 s a b f rest e)
  then have "tiles (b + 1) rest e" "a = s" "a \<le> b" by simp_all
  moreover from this have "b + 1 \<le> e" by (simp add: tiles_le)
  ultimately show ?case using 2 by auto
qed simp

lemma tiles_sorted:
  assumes "tiles s xs e"
  shows "sorted_wrt (\<lambda>x y. fst (snd x) < fst y) xs"
  using assms
proof (induction s xs e rule: tiles.induct)
  case (2 s a b f rest e)
  then have t: "tiles (b + 1) rest e" by simp
  have "b < fst y" if "y \<in> set rest" for y
    using tiles_bounds [OF t, of "fst y" "fst (snd y)" "snd (snd y)"] that by simp
  then show ?case using 2 t by simp
qed simp

lemma distinct_adj_snoc:
  "distinct_adj (xs @ [x, y]) \<longleftrightarrow> distinct_adj (xs @ [x]) \<and> x \<noteq> y"
  by (induction xs rule: induct_list012) auto

lemma spans_prefix:
  assumes "k < length M"
  shows "\<exists>spans cs cv.
           fold (spans_step M) [0..<k] ([], 0, M ! 0) = (spans, cs, cv) \<and>
           0 \<le> cs \<and> cs \<le> int k \<and> M ! nat cs = cv \<and>
           (\<forall>p. nat cs \<le> p \<and> p < k \<longrightarrow> M ! p = cv) \<and>
           tiles 0 spans cs \<and>
           distinct_adj (map (\<lambda>x. snd (snd x)) spans @ [cv]) \<and>
           (\<forall>(a, b, f) \<in> set spans. \<forall>p \<in> {a..b}. M ! nat p = f)"
  using assms
proof (induction k)
  case 0
  then show ?case by simp
next
  case (Suc k)
  then obtain spans cs cv where
    run: "fold (spans_step M) [0..<k] ([], 0, M ! 0) = (spans, cs, cv)" and
    cs: "0 \<le> cs" "cs \<le> int k" "M ! nat cs = cv" and
    same: "\<forall>p. nat cs \<le> p \<and> p < k \<longrightarrow> M ! p = cv" and
    t: "tiles 0 spans cs" and
    d: "distinct_adj (map (\<lambda>x. snd (snd x)) spans @ [cv])" and
    f: "\<forall>(a, b, f) \<in> set spans. \<forall>p \<in> {a..b}. M ! nat p = f"
    by (metis (lifting) Suc_lessD)
  have notlast: "int k \<noteq> int (length M) - 1" using Suc.prems by simp
  show ?case
  proof (cases "M ! k = cv")
    case True
    then have "fold (spans_step M) [0..<Suc k] ([], 0, M ! 0) = (spans, cs, cv)"
      using run notlast by (simp add: spans_step_def)
    moreover have "\<forall>p. nat cs \<le> p \<and> p < Suc k \<longrightarrow> M ! p = cv"
      using same True by (auto simp: less_Suc_eq)
    ultimately show ?thesis using cs t d f by auto
  next
    case False
    then have run': "fold (spans_step M) [0..<Suc k] ([], 0, M ! 0) =
        (spans @ [(cs, int k - 1, cv)], int k, M ! k)"
      using run notlast by (simp add: spans_step_def)
    have "nat cs \<noteq> k" using False cs(3) by auto
    then have lt: "cs \<le> int k - 1" using cs(1,2) by linarith
    have t': "tiles 0 (spans @ [(cs, int k - 1, cv)]) (int k)"
      using tiles_snoc [OF t lt, of cv] by simp
    have d': "distinct_adj (map (\<lambda>x. snd (snd x)) (spans @ [(cs, int k - 1, cv)]) @ [M ! k])"
      using d False by (simp add: distinct_adj_snoc)
    have f': "\<forall>(a, b, f) \<in> set (spans @ [(cs, int k - 1, cv)]). \<forall>p \<in> {a..b}. M ! nat p = f"
    proof -
      have "M ! nat p = cv" if "p \<in> {cs..int k - 1}" for p
      proof -
        have "nat cs \<le> nat p \<and> nat p < k" using that cs(1) by auto
        then show ?thesis using same by blast
      qed
      then show ?thesis using f by auto
    qed
    have s': "\<forall>p. nat (int k) \<le> p \<and> p < Suc k \<longrightarrow> M ! p = M ! k"
      by (metis le_antisym less_Suc_eq_le nat_int)
    have b': "0 \<le> int k" "int k \<le> int (Suc k)" "M ! nat (int k) = M ! k" by simp_all
    show ?thesis
      using run' b' s' t' d' f' by blast
  qed
qed


lemma get_spans_nonempty:
  assumes "M \<noteq> []"
  shows "\<exists>spans. get_spans M = Inr spans \<and>
           tiles 0 spans (int (length M)) \<and>
           distinct_adj (map (\<lambda>x. snd (snd x)) spans) \<and>
           (\<forall>(a, b, f) \<in> set spans. \<forall>p \<in> {a..b}. M ! nat p = f)"
proof -
  define k where "k = length M - 1"
  have n: "length M = Suc k" "k < length M" using assms by (simp_all add: k_def)
  obtain spans cs cv where
    run: "fold (spans_step M) [0..<k] ([], 0, M ! 0) = (spans, cs, cv)" and
    cs: "0 \<le> cs" "cs \<le> int k" "M ! nat cs = cv" and
    same: "\<forall>p. nat cs \<le> p \<and> p < k \<longrightarrow> M ! p = cv" and
    t: "tiles 0 spans cs" and
    d: "distinct_adj (map (\<lambda>x. snd (snd x)) spans @ [cv])" and
    f: "\<forall>(a, b, f) \<in> set spans. \<forall>p \<in> {a..b}. M ! nat p = f"
    using spans_prefix [OF n(2)] by blast
  obtain b rest where M: "M = b # rest" using assms by (cases M) auto
  have hd: "M ! 0 = b" by (simp add: M)
  have all: "fold (spans_step M) [0..<length M] ([], 0, b) = spans_step M k (spans, cs, cv)"
    using run by (simp add: n(1) hd)
  have last: "int k = int (length M) - 1" by (simp add: n(1))
  have d0: "distinct_adj (map (\<lambda>x. snd (snd x)) spans)"
    using d by (simp add: distinct_adj_append_iff)
  show ?thesis
  proof (cases "M ! k = cv")
    case True
    have res: "get_spans M = Inr (spans @ [(cs, int k, cv)])"
      unfolding get_spans_def M [symmetric]
      using all True last by (simp add: M spans_step_def)
    have t': "tiles 0 (spans @ [(cs, int k, cv)]) (int (length M))"
      using tiles_snoc [OF t cs(2), of cv] by (simp add: n(1) add.commute)
    have d': "distinct_adj (map (\<lambda>x. snd (snd x)) (spans @ [(cs, int k, cv)]))"
      using d by simp
    have "M ! nat p = cv" if "p \<in> {cs..int k}" for p
    proof (cases "nat p = k")
      case True
      then show ?thesis using \<open>M ! k = cv\<close> by simp
    next
      case False
      then have "nat cs \<le> nat p \<and> nat p < k" using that cs(1) by auto
      then show ?thesis using same by blast
    qed
    then have f': "\<forall>(a, b, f) \<in> set (spans @ [(cs, int k, cv)]). \<forall>p \<in> {a..b}. M ! nat p = f"
      using f by auto
    show ?thesis using res t' d' f' by blast
  next
    case False
    let ?new = "[(cs, int k - 1, cv), (int k, int k, M ! k)]"
    have res: "get_spans M = Inr (spans @ ?new)"
      unfolding get_spans_def M [symmetric]
      using all False last by (simp add: M spans_step_def)
    have "nat cs \<noteq> k" using False cs(3) by auto
    then have lt: "cs \<le> int k - 1" using cs(1,2) by linarith
    have "tiles 0 (spans @ [(cs, int k - 1, cv)]) (int k)"
      using tiles_snoc [OF t lt, of cv] by simp
    from tiles_snoc [OF this, of "int k" "M ! k"]
    have t': "tiles 0 (spans @ ?new) (int (length M))"
      by (simp add: n(1) add.commute)
    have d': "distinct_adj (map (\<lambda>x. snd (snd x)) (spans @ ?new))"
      using d False by (simp add: distinct_adj_snoc)
    have "M ! nat p = cv" if "p \<in> {cs..int k - 1}" for p
    proof -
      have "nat cs \<le> nat p \<and> nat p < k" using that cs(1) by auto
      then show ?thesis using same by blast
    qed
    then have f': "\<forall>(a, b, f) \<in> set (spans @ ?new). \<forall>p \<in> {a..b}. M ! nat p = f"
      using f by auto
    show ?thesis using res t' d' f' by blast
  qed
qed

subsection \<open>The greedy marking finds every token of a common subsequence\<close>

lemma seek_subseq:
  assumes "subseq (token # rest) (drop idx tokens)"
  shows "\<exists>k. seek tokens idx token = Inr k \<and> idx \<le> k \<and> k < length tokens \<and>
             subseq rest (drop (Suc k) tokens)"
  using assms
proof (induction tokens idx token rule: seek.induct)
  case (1 tokens idx token)
  have inr: "idx < length tokens"
    using "1.prems" by (cases "idx < length tokens") simp_all
  then have unfold: "drop idx tokens = tokens ! idx # drop (Suc idx) tokens"
    by (simp add: Cons_nth_drop_Suc)
  show ?case
  proof (cases "tokens ! idx = token")
    case True
    then have "subseq rest (drop (Suc idx) tokens)"
      using "1.prems" unfold by simp
    then show ?thesis using True inr by (subst seek.simps) auto
  next
    case False
    then have "subseq (token # rest) (drop (idx + 1) tokens)"
      using "1.prems" unfold by simp
    then obtain k where "seek tokens (idx + 1) token = Inr k" "idx + 1 \<le> k"
        "k < length tokens" "subseq rest (drop (Suc k) tokens)"
      using "1.IH" [OF inr False] by blast
    then show ?thesis using False inr by (subst seek.simps) auto
  qed
qed

lemma count_list_mark:
  assumes "k < length bs" "\<not> bs ! k"
  shows "count_list (bs[k := True]) True = Suc (count_list bs True)"
  using assms
proof (induction bs arbitrary: k)
  case Nil
  then show ?case by simp
next
  case (Cons b bs)
  then show ?case by (cases k) auto
qed

lemma count_list_all_False: "count_list (replicate n False) True = 0"
  by (induction n) simp_all

lemma mark_loop_counts:
  assumes "subseq r (drop ti tt)" "subseq r (drop pi pt)"
    "length th = length tt" "length ph = length pt"
    "\<forall>p. ti \<le> p \<and> p < length th \<longrightarrow> \<not> th ! p"
    "\<forall>p. pi \<le> p \<and> p < length ph \<longrightarrow> \<not> ph ! p"
  shows "\<exists>ti' pi' th' ph'.
           mark_loop tt pt r (ti, pi, th, ph) = Inr (ti', pi', th', ph') \<and>
           length th' = length tt \<and> length ph' = length pt \<and>
           count_list th' True = count_list th True + length r \<and>
           count_list ph' True = count_list ph True + length r"
  using assms
proof (induction r arbitrary: ti pi th ph)
  case Nil
  then show ?case by simp
next
  case (Cons token r)
  obtain k where k: "seek tt ti token = Inr k" "ti \<le> k" "k < length tt"
      "subseq r (drop (Suc k) tt)"
    using seek_subseq [OF Cons.prems(1)] by blast
  obtain l where l: "seek pt pi token = Inr l" "pi \<le> l" "l < length pt"
      "subseq r (drop (Suc l) pt)"
    using seek_subseq [OF Cons.prems(2)] by blast
  let ?th = "th[k := True]" and ?ph = "ph[l := True]"
  have step: "mark_step tt pt token (ti, pi, th, ph) = Inr (k + 1, l + 1, ?th, ?ph)"
    using k(1) l(1) by (simp add: mark_step_def)
  have ct: "count_list ?th True = Suc (count_list th True)"
    using k(2,3) Cons.prems(3,5) by (intro count_list_mark) auto
  have cp: "count_list ?ph True = Suc (count_list ph True)"
    using l(2,3) Cons.prems(4,6) by (intro count_list_mark) auto
  have ft: "\<forall>p. k + 1 \<le> p \<and> p < length ?th \<longrightarrow> \<not> ?th ! p"
    using Cons.prems(5) k(2) by auto
  have fp: "\<forall>p. l + 1 \<le> p \<and> p < length ?ph \<longrightarrow> \<not> ?ph ! p"
    using Cons.prems(6) l(2) by auto
  have "\<exists>ti' pi' th' ph'.
           mark_loop tt pt r (k + 1, l + 1, ?th, ?ph) = Inr (ti', pi', th', ph') \<and>
           length th' = length tt \<and> length ph' = length pt \<and>
           count_list th' True = count_list ?th True + length r \<and>
           count_list ph' True = count_list ?ph True + length r"
    using k(4) l(4) Cons.prems(3,4) ft fp by (intro Cons.IH) simp_all
  then show ?case
    using step ct cp by auto
qed

subsection \<open>Characters that survive \<^verbatim>\<open>_remove_punctuation\<close>\<close>

lemma of_char_py_lower:
  "of_char (py_lower c) = (39::nat) \<Longrightarrow> of_char c = (39::nat)"
  by (auto simp: py_lower_def Let_def split: if_splits)

lemma set_py_strip: "set (py_strip w) \<subseteq> set w"
proof -
  have "set (py_strip w) \<subseteq> set (dropWhile is_space w)"
    unfolding py_strip_def using set_dropWhileD by fastforce
  also have "\<dots> \<subseteq> set w" using set_dropWhileD by fastforce
  finally show ?thesis .
qed

lemma apostrophe_code: "of_char (CHR 0x27) = (39::nat)"
  by simp

lemma apostrophe_in_class: "of_char c = (39::nat) \<Longrightarrow> in_punct_class c"
  by (simp add: in_punct_class_def)

subsection \<open>The loop over the span pairs\<close>

lemma span_body_matched:
  assumes "snd (snd pred_span)"
  shows "span_body normalizer remove_punctuation input target pred target_tokens pred_tokens
           (pred_span, target_span) s =
         (emit (span_line ''target:'' target_tokens target_span) s, None)"
  using assms by (simp add: span_body_def Let_def)

lemma span_loop_all_matched:
  assumes "list_all (\<lambda>pair. snd (snd (fst pair))) pairs"
  shows "span_loop normalizer remove_punctuation input target pred target_tokens pred_tokens
           pairs s =
         (fold (\<lambda>pair. emit (span_line ''target:'' target_tokens (snd pair))) pairs s, None)"
  using assms
proof (induction pairs arbitrary: s)
  case Nil
  then show ?case by simp
next
  case (Cons pair pairs)
  obtain p t where pair: "pair = (p, t)" by (cases pair)
  have "snd (snd p)" using Cons.prems pair by simp
  then show ?case
    using Cons pair by (simp add: span_body_matched)
qed

lemma classify_b_ab:
  "classify_block (Some no_alternatives) None (Some ''x'') ''a b'' ''b''
     (emit (Print ''????'') (emit (span_line ''target:'' [''b''] (0, 0, True)) zero_frame)) =
   (\<lparr>correct_with_no_punct = Some 0, correct_with_zs = Some 0, acceptable_error = Some 0,
     wrong = Some 1,
     out = [Print ''target: b'', Print ''????'', Normalize ''x'', Print ''input:  x'',
            Print ''nn...: a b'', Print ''target: b'',
            Print ''----------------------------------------'']\<rparr>, None)"
  by code_simp

lemma span_lines_b_ab:
  "span_line ''target:'' [''b''] (0, 0, False) = Print ''target: b''"
  "span_line ''target:'' [''b''] (0, 0, True) = Print ''target: b''"
  "span_line ''pred  :'' [''a'', ''b''] (0, 0, False) = Print ''pred  : a''"
  by code_simp+

subsection \<open>An exception of the normalizer\<close>

lemma classify_block_raises:
  assumes "py_strip (u_remove_punctuation pred True True) \<noteq>
           py_strip (u_remove_punctuation target True True)"
      and "replace_char CHR ''s'' CHR ''z'' (py_strip (u_remove_punctuation pred True True)) \<noteq>
           replace_char CHR ''s'' CHR ''z'' (py_strip (u_remove_punctuation target True True))"
      and "normalizer (py_strip (remove_backticks input)) = Inl e"
  shows "classify_block (Some normalizer) remove_punctuation (Some input) pred target s =
           (emit (Normalize (py_strip (remove_backticks input))) s, Some e)"
  using assms by (simp add: classify_block_def Let_def)

lemma ground_truth_line:
  assumes "prefix ''Ground-Truth'' line"
  shows "\<not> prefix ''Original Input'' line" "\<not> prefix ''Predicted Str'' line"
  using assms by (auto simp: prefix_def)

subsection \<open>A table with a tie\<close>

lemma lcs_table_ab_ba: "lcs_table [''a'', ''b''] [''b'', ''a''] = [[0, 0, 0], [0, 0, 1], [0, 1, 1]]"
  by code_simp

lemma lcs_table_ab_a: "lcs_table [''a'', ''b''] [''a''] = [[0, 0], [0, 1], [0, 1]]"
  by code_simp

subsection \<open>Verdicts counted, matched pairs skipped, and the zip of the constructor\<close>

lemma verdicts_emit: "verdicts (emit e s) = verdicts s"
  by (simp add: verdicts_def emit_def)

lemma verdicts_report_wrong: "verdicts (report_wrong input pred target s) = verdicts s"
  by (simp add: report_wrong_def Let_def verdicts_emit)

lemma classify_block_verdicts:
  assumes "classify_block normalizer remove_punctuation input pred target s = (s', r)"
  shows "verdicts s' = verdicts s + (if r = None then 1 else 0)"
proof -
  have inc: "bound_value v' = bound_value v + 1" if "increment v = Inr v'" for v v'
    using that by (auto simp: increment_def bound_value_def split: option.splits)
  have w: "verdicts (s0\<lparr>wrong := v'\<rparr>) = verdicts s0 + 1" if "increment (wrong s0) = Inr v'" for s0 v'
    using inc [OF that] by (simp add: verdicts_def)
  have a: "verdicts (s0\<lparr>acceptable_error := v'\<rparr>) = verdicts s0 + 1"
    if "increment (acceptable_error s0) = Inr v'" for s0 v'
    using inc [OF that] by (simp add: verdicts_def)
  have z: "verdicts (s0\<lparr>correct_with_zs := v'\<rparr>) = verdicts s0 + 1"
    if "increment (correct_with_zs s0) = Inr v'" for s0 v'
    using inc [OF that] by (simp add: verdicts_def)
  have p: "verdicts (s0\<lparr>correct_with_no_punct := v'\<rparr>) = verdicts s0 + 1"
    if "increment (correct_with_no_punct s0) = Inr v'" for s0 v'
    using inc [OF that] by (simp add: verdicts_def)
  show ?thesis
    using assms
    by (auto simp: classify_block_def Let_def verdicts_emit verdicts_report_wrong w a z p
             split: if_splits sum.splits option.splits)
qed


lemma span_body_verdicts:
  assumes "span_body normalizer remove_punctuation input target pred target_tokens pred_tokens
             pair s = (s', r)"
  shows "verdicts s' = verdicts s + (if r = None \<and> \<not> snd (snd (fst pair)) then 1 else 0)"
    and "r \<noteq> None \<Longrightarrow> \<not> snd (snd (fst pair))"
proof -
  obtain p t where pair: "pair = (p, t)" by (cases pair)
  show "r \<noteq> None \<Longrightarrow> \<not> snd (snd (fst pair))"
  proof
    assume "r \<noteq> None" "snd (snd (fst pair))"
    then show False
      using assms pair span_body_matched [of p normalizer remove_punctuation input target pred
          target_tokens pred_tokens t s] by simp
  qed
  show "verdicts s' = verdicts s + (if r = None \<and> \<not> snd (snd (fst pair)) then 1 else 0)"
  proof (cases "snd (snd p)")
    case True
    then show ?thesis
      using assms pair span_body_matched [of p normalizer remove_punctuation input target pred
          target_tokens pred_tokens t s] by (auto simp: verdicts_emit)
  next
    case False
    let ?s1 = "emit (span_line ''target:'' target_tokens t) s"
    let ?s2 = "if snd (snd t) then emit (Print ''????'') ?s1 else ?s1"
    obtain s3 r3 where cb: "classify_block normalizer remove_punctuation (Some input) pred
        target ?s2 = (s3, r3)" by (cases "classify_block normalizer remove_punctuation
        (Some input) pred target ?s2")
    have v3: "verdicts s3 = verdicts s + (if r3 = None then 1 else 0)"
      using classify_block_verdicts [OF cb] by (simp add: verdicts_emit)
    have body: "span_body normalizer remove_punctuation input target pred target_tokens
        pred_tokens pair s =
        (case r3 of
           Some e \<Rightarrow> (s3, Some e)
         | None \<Rightarrow> (emit (span_line ''target:'' target_tokens t)
                     (emit (span_line ''pred  :'' pred_tokens p) s3), None))"
      using pair False cb by (simp add: span_body_def Let_def split: option.splits)
    show ?thesis
    proof (cases r3)
      case None
      then have "s' = emit (span_line ''target:'' target_tokens t)
                     (emit (span_line ''pred  :'' pred_tokens p) s3)" "r = None"
        using assms body by simp_all
      then show ?thesis using v3 None False pair by (simp add: verdicts_emit)
    next
      case (Some e)
      then have "s' = s3" "r = Some e" using assms body by simp_all
      then show ?thesis using v3 Some by simp
    qed
  qed
qed

lemma span_loop_verdicts:
  assumes "span_loop normalizer remove_punctuation input target pred target_tokens pred_tokens
             pairs s = (s', r)"
  shows "(r = None \<longrightarrow>
            verdicts s' =
              verdicts s + int (length (filter (\<lambda>pair. \<not> snd (snd (fst pair))) pairs))) \<and>
         (r \<noteq> None \<longrightarrow>
            verdicts s \<le> verdicts s' \<and>
            verdicts s' <
              verdicts s + int (length (filter (\<lambda>pair. \<not> snd (snd (fst pair))) pairs)))"
  using assms
proof (induction pairs arbitrary: s)
  case Nil
  then show ?case by simp
next
  case (Cons pair pairs)
  obtain s1 r1 where body: "span_body normalizer remove_punctuation input target pred
      target_tokens pred_tokens pair s = (s1, r1)"
    by (cases "span_body normalizer remove_punctuation input target pred
      target_tokens pred_tokens pair s")
  note v1 = span_body_verdicts [OF body]
  show ?case
  proof (cases r1)
    case None
    then have rest: "span_loop normalizer remove_punctuation input target pred target_tokens
        pred_tokens pairs s1 = (s', r)"
      using Cons.prems body by simp
    show ?thesis
      using Cons.IH [OF rest] v1(1) None by auto
  next
    case (Some e)
    then have "s' = s1" "r = Some e" using Cons.prems body by simp_all
    then show ?thesis using v1 Some by auto
  qed
qed

lemma span_loop_skip_matched:
  assumes "list_all (\<lambda>pair. snd (snd (fst pair))) ms"
  shows "span_loop normalizer remove_punctuation input target pred target_tokens pred_tokens
           (ms @ rest) s =
         span_loop normalizer remove_punctuation input target pred target_tokens pred_tokens
           rest (fold (\<lambda>pair. emit (span_line ''target:'' target_tokens (snd pair))) ms s)"
  using assms
proof (induction ms arbitrary: s)
  case Nil
  then show ?case by simp
next
  case (Cons pair ms)
  obtain p t where pair: "pair = (p, t)" by (cases pair)
  have "snd (snd p)" using Cons.prems pair by simp
  then show ?case
    using Cons pair by (simp add: span_body_matched)
qed

lemma py_split_nonempty: "py_split w \<noteq> []"
  by (induction w) auto

lemma highlight_masks_lengths:
  "\<exists>th ph. highlight_masks T P = Inr (th, ph) \<and> length th = length T \<and> length ph = length P"
proof -
  let ?r = "lcs_path T P (length T) (length P)"
  have run: "lcs T P = Inr ?r" by (rule lcs_eq_path)
  have s1: "subseq ?r (drop 0 T)"
    using lcs_path_subseq_left [of "length T" T P] by simp
  have s2: "subseq ?r (drop 0 P)"
    using lcs_path_subseq_right [of "length P" P T] by simp
  obtain ti' pi' th' ph' where
    m: "mark_loop T P ?r (0, 0, replicate (length T) False, replicate (length P) False)
        = Inr (ti', pi', th', ph')"
       "length th' = length T" "length ph' = length P"
    using mark_loop_counts [OF s1 s2, of "replicate (length T) False"
        "replicate (length P) False"] by auto
  have "highlight_masks T P = Inr (th', ph')"
    using run m(1) by (simp add: highlight_masks_def)
  then show ?thesis using m(2,3) by blast
qed

lemma ErrorCase_init_zip:
  "\<exists>th ph target_spans pred_spans.
     highlight_masks (py_split target) (py_split pred) = Inr (th, ph) \<and>
     get_spans th = Inr target_spans \<and> get_spans ph = Inr pred_spans \<and>
     ErrorCase_init remove_punctuation input target pred classes mode normalizer =
       (case span_loop normalizer remove_punctuation input target pred
               (py_split target) (py_split pred) (zip pred_spans target_spans) init_frame of
          (s, Some e) \<Rightarrow> (out s, Inl e)
        | (s, None) \<Rightarrow>
            (out (emit (Print []) s),
             Inr \<lparr>ec_input = input, ec_target = target, ec_pred = pred,
                  ec_mode = mode, ec_classes = classes,
                  ec_target_tokens = py_split target, ec_pred_tokens = py_split pred,
                  ec_target_spans = target_spans, ec_pred_spans = pred_spans\<rparr>)) \<and>
     length (zip pred_spans target_spans) = min (length pred_spans) (length target_spans)"
proof -
  obtain th ph where h: "highlight_masks (py_split target) (py_split pred) = Inr (th, ph)"
      "length th = length (py_split target)" "length ph = length (py_split pred)"
    using highlight_masks_lengths by blast
  have ne: "th \<noteq> []" "ph \<noteq> []" using h(2,3) py_split_nonempty by auto
  obtain ts where gt: "get_spans th = Inr ts"
    using get_spans_nonempty [OF ne(1)] by blast
  obtain ps where gp: "get_spans ph = Inr ps"
    using get_spans_nonempty [OF ne(2)] by blast
  have "ErrorCase_init remove_punctuation input target pred classes mode normalizer =
       (case span_loop normalizer remove_punctuation input target pred
               (py_split target) (py_split pred) (zip ps ts) init_frame of
          (s, Some e) \<Rightarrow> (out s, Inl e)
        | (s, None) \<Rightarrow>
            (out (emit (Print []) s),
             Inr \<lparr>ec_input = input, ec_target = target, ec_pred = pred,
                  ec_mode = mode, ec_classes = classes,
                  ec_target_tokens = py_split target, ec_pred_tokens = py_split pred,
                  ec_target_spans = ts, ec_pred_spans = ps\<rparr>))"
    using h(1) gt gp by (simp add: ErrorCase_init_def Let_def)
  then show ?thesis
    using h(1) gt gp by (intro exI [of _ th] exI [of _ ph] exI [of _ ts] exI [of _ ps]) simp
qed

lemma span_loop_mismatched_head:
  assumes "\<not> no_error_pred"
  shows "span_loop normalizer remove_punctuation input target pred target_tokens pred_tokens
        (((start_pred, end_pred, no_error_pred),
          (start_target, end_target, no_error_target)) # pairs) s =
      (let target_line = span_line ''target:'' target_tokens
                           (start_target, end_target, no_error_target);
           pred_line = span_line ''pred  :'' pred_tokens (start_pred, end_pred, no_error_pred);
           s1 = emit target_line s;
           s2 = (if no_error_target then emit (Print ''????'') s1 else s1)
       in case classify_block normalizer remove_punctuation (Some input) pred target s2 of
            (s3, Some e) \<Rightarrow> (s3, Some e)
          | (s3, None) \<Rightarrow>
              span_loop normalizer remove_punctuation input target pred target_tokens
                pred_tokens pairs (emit target_line (emit pred_line s3)))"
  using assms by (auto simp: span_body_def Let_def split: prod.splits option.splits)

subsection \<open>The phonetic branch of the chain\<close>

lemma classify_block_phonetic:
  assumes "py_strip (u_remove_punctuation pred True True) \<noteq>
           py_strip (u_remove_punctuation target True True)"
      and "replace_char CHR ''s'' CHR ''z'' (py_strip (u_remove_punctuation pred True True)) =
           replace_char CHR ''s'' CHR ''z'' (py_strip (u_remove_punctuation target True True))"
  shows "classify_block normalizer remove_punctuation input pred target s =
           (case correct_with_zs s of
              None \<Rightarrow> (s, Some UnboundLocalError)
            | Some n \<Rightarrow> (s\<lparr>correct_with_zs := Some (n + 1)\<rparr>, None))"
  using assms by (simp add: classify_block_def Let_def increment_def split: option.splits)

section \<open>The claims about \<^verbatim>\<open>lcs\<close>\<close>

text \<open>
  Claim C1. For every pair of token lists \<open>X\<close> and \<open>Y\<close>, \<^verbatim>\<open>lcs(X, Y)\<close> returns (it does
  not raise) a list that is a subsequence of \<open>X\<close> and of \<open>Y\<close>; its length is the entry
  \<open>L[|X|][|Y|]\<close> of the table the two loops build, and every entry of that table obeys the
  recurrence: zero in row and column zero, the diagonal neighbour plus one where the tokens
  match, the maximum of the upper and the left neighbour otherwise.
\<close>

theorem lcs_subsequence_and_length:
  "\<exists>r. lcs X Y = Inr r \<and> subseq r X \<and> subseq r Y \<and>
       int (length r) = lcs_table X Y ! length X ! length Y \<and>
       (\<forall>i j. i \<le> length X \<longrightarrow> j \<le> length Y \<longrightarrow>
          lcs_table X Y ! i ! j =
            (if i = 0 \<or> j = 0 then 0
             else if X ! (i - 1) = Y ! (j - 1) then lcs_table X Y ! (i - 1) ! (j - 1) + 1
             else max (lcs_table X Y ! (i - 1) ! j) (lcs_table X Y ! i ! (j - 1))))"
proof -
  let ?r = "lcs_path X Y (length X) (length Y)"
  have "lcs X Y = Inr ?r" by (rule lcs_eq_path)
  moreover have "subseq ?r X" using lcs_path_subseq_left [of "length X" X Y "length Y"] by simp
  moreover have "subseq ?r Y" using lcs_path_subseq_right [of "length Y" Y X "length X"] by simp
  moreover have "int (length ?r) = lcs_table X Y ! length X ! length Y"
    by (simp add: length_lcs_path lcs_table_eq)
  moreover have "lcs_table X Y ! i ! j =
            (if i = 0 \<or> j = 0 then 0
             else if X ! (i - 1) = Y ! (j - 1) then lcs_table X Y ! (i - 1) ! (j - 1) + 1
             else max (lcs_table X Y ! (i - 1) ! j) (lcs_table X Y ! i ! (j - 1)))"
    if "i \<le> length X" "j \<le> length Y" for i j
  proof -
    have "lcs_table X Y ! i ! j = lcs_len X Y i j" using that by (rule lcs_table_eq)
    also have "\<dots> = (if i = 0 \<or> j = 0 then 0
      else if X ! (i - 1) = Y ! (j - 1) then lcs_len X Y (i - 1) (j - 1) + 1
      else max (lcs_len X Y (i - 1) j) (lcs_len X Y i (j - 1)))"
      by (rule lcs_len_unfold)
    also have "\<dots> = (if i = 0 \<or> j = 0 then 0
             else if X ! (i - 1) = Y ! (j - 1) then lcs_table X Y ! (i - 1) ! (j - 1) + 1
             else max (lcs_table X Y ! (i - 1) ! j) (lcs_table X Y ! i ! (j - 1)))"
      using that by (simp add: lcs_table_eq)
    finally show ?thesis .
  qed
  ultimately show ?thesis by blast
qed

theorem lcs_subsequence_and_length_witness:
  "lcs [''a'', ''b''] [''b'', ''c''] = Inr [''b''] \<and>
   subseq [''b''] [''a'', ''b''] \<and> subseq [''b''] [''b'', ''c''] \<and>
   lcs_table [''a'', ''b''] [''b'', ''c''] ! 2 ! 2 = 1 \<and>
   lcs_table [''a'', ''b''] [''b'', ''c''] ! 2 ! 1 = lcs_table [''a'', ''b''] [''b'', ''c''] ! 1 ! 0 + 1"
proof -
  let ?X = "[''a'', ''b'']" and ?Y = "[''b'', ''c'']"
  have run: "lcs ?X ?Y = Inr [''b'']" by code_simp
  obtain r where r: "lcs ?X ?Y = Inr r" "subseq r ?X" "subseq r ?Y"
      "int (length r) = lcs_table ?X ?Y ! length ?X ! length ?Y"
    and rec: "\<And>i j. i \<le> length ?X \<Longrightarrow> j \<le> length ?Y \<Longrightarrow>
          lcs_table ?X ?Y ! i ! j =
            (if i = 0 \<or> j = 0 then 0
             else if ?X ! (i - 1) = ?Y ! (j - 1) then lcs_table ?X ?Y ! (i - 1) ! (j - 1) + 1
             else max (lcs_table ?X ?Y ! (i - 1) ! j) (lcs_table ?X ?Y ! i ! (j - 1)))"
    using lcs_subsequence_and_length [of ?X ?Y] by blast
  have eq: "r = [''b'']" using run r(1) by simp
  have "lcs_table ?X ?Y ! 2 ! 1 = lcs_table ?X ?Y ! 1 ! 0 + 1"
    using rec [of 2 1] by simp
  moreover have "lcs_table ?X ?Y ! 2 ! 2 = 1"
    using r(4) eq by (simp add: eval_nat_numeral)
  ultimately show ?thesis using run r(2,3) eq by simp
qed

text \<open>
  Claim C10. For every token list \<open>X\<close>, \<^verbatim>\<open>lcs(X, X)\<close> returns \<open>X\<close> itself.
\<close>

theorem lcs_self: "lcs X X = Inr X"
  using lcs_eq_path [of X X] lcs_path_same [of "length X" X] by simp

text \<open>
  Claim C5, as the code has it. In the backtracking loop, at a cell whose two tokens
  differ, the loop moves up (\<open>i\<close> is decremented) exactly when the upper neighbour is
  strictly greater than the left one, \<^verbatim>\<open>L[i - 1][j] > L[i][j - 1]\<close>, and otherwise moves left
  (\<open>j\<close> is decremented, along the prediction). In particular, when the two neighbours hold
  the same value the move is left and \<open>i\<close> is unchanged. The claim says the move is up. For
  \<open>X = [a, b]\<close>, \<open>Y = [b, a]\<close> the first step is at such a tie, and the result is \<open>[b]\<close>;
  a move up would have given \<open>[a]\<close>.
\<close>

theorem lcs_tie_moves_left:
  assumes "0 < i" "0 < j" "X ! (i - 1) \<noteq> Y ! (j - 1)"
  shows "(L ! (i - 1) ! j = L ! i ! (j - 1) \<longrightarrow>
            lcs_step X Y L (i, j, index, acc) = Inr (i, j - 1, index, acc) \<and>
            lcs_loop X Y L (i, j, index, acc) = lcs_loop X Y L (i, j - 1, index, acc)) \<and>
         (lcs_step X Y L (i, j, index, acc) = Inr (i - 1, j, index, acc) \<longleftrightarrow>
            L ! (i - 1) ! j > L ! i ! (j - 1)) \<and>
         (lcs_step X Y L (i, j, index, acc) = Inr (i, j - 1, index, acc) \<longleftrightarrow>
            \<not> L ! (i - 1) ! j > L ! i ! (j - 1)) \<and>
         (L ! (i - 1) ! j > L ! i ! (j - 1) \<longrightarrow>
            lcs_loop X Y L (i, j, index, acc) = lcs_loop X Y L (i - 1, j, index, acc)) \<and>
         (\<not> L ! (i - 1) ! j > L ! i ! (j - 1) \<longrightarrow>
            lcs_loop X Y L (i, j, index, acc) = lcs_loop X Y L (i, j - 1, index, acc))"
proof -
  have step: "lcs_step X Y L (i, j, index, acc) =
      (if L ! (i - 1) ! j > L ! i ! (j - 1) then Inr (i - 1, j, index, acc)
       else Inr (i, j - 1, index, acc))"
    using assms(3) by (simp add: lcs_step_def)
  have loop: "lcs_loop X Y L (i, j, index, acc) =
      (if L ! (i - 1) ! j > L ! i ! (j - 1) then lcs_loop X Y L (i - 1, j, index, acc)
       else lcs_loop X Y L (i, j - 1, index, acc))"
    using assms(1,2) step by (subst lcs_loop.simps) simp
  have ne: "i - 1 \<noteq> i" using assms(1) by simp
  show ?thesis
    using step loop ne by auto
qed

theorem lcs_tie_moves_left_witness:
  "lcs_step [''a'', ''b''] [''b'', ''a''] (lcs_table [''a'', ''b''] [''b'', ''a'']) (2, 2, 1, [[], []])
     = Inr (2, 1, 1, [[], []]) \<and>
   lcs_step [''a'', ''b''] [''a''] (lcs_table [''a'', ''b''] [''a'']) (2, 1, 1, [[], []])
     = Inr (1, 1, 1, [[], []])"
proof -
  have tie: "lcs_table [''a'', ''b''] [''b'', ''a''] ! (2 - 1) ! 2 =
             lcs_table [''a'', ''b''] [''b'', ''a''] ! 2 ! (2 - 1)"
    by (simp add: lcs_table_ab_ba)
  have d1: "[''a'', ''b''] ! (2 - 1) \<noteq> [''b'', ''a''] ! (2 - 1)" by simp
  have left: "lcs_step [''a'', ''b''] [''b'', ''a''] (lcs_table [''a'', ''b''] [''b'', ''a''])
      (2, 2, 1, [[], []]) = Inr (2, 2 - 1, 1, [[], []])"
    using tie lcs_tie_moves_left [where i = 2 and j = 2 and X = "[''a'', ''b'']"
        and Y = "[''b'', ''a'']" and L = "lcs_table [''a'', ''b''] [''b'', ''a'']"
        and index = 1 and acc = "[[], []]", OF _ _ d1, THEN conjunct1]
    by simp
  have up_gt: "lcs_table [''a'', ''b''] [''a''] ! (2 - 1) ! 1 >
               lcs_table [''a'', ''b''] [''a''] ! 2 ! (1 - 1)"
    by (simp add: lcs_table_ab_a)
  have d2: "[''a'', ''b''] ! (2 - 1) \<noteq> [''a''] ! (1 - 1)" by simp
  have up: "lcs_step [''a'', ''b''] [''a''] (lcs_table [''a'', ''b''] [''a''])
      (2, 1, 1, [[], []]) = Inr (2 - 1, 1, 1, [[], []])"
    using up_gt lcs_tie_moves_left [where i = 2 and j = 1 and X = "[''a'', ''b'']"
        and Y = "[''a'']" and L = "lcs_table [''a'', ''b''] [''a'']"
        and index = 1 and acc = "[[], []]", OF _ _ d2, THEN conjunct2, THEN conjunct1]
    by simp
  show ?thesis using left up by simp
qed

theorem lcs_tie_counterexample:
  "lcs_table [''a'', ''b''] [''b'', ''a''] ! (2 - 1) ! 2 = lcs_table [''a'', ''b''] [''b'', ''a''] ! 2 ! (2 - 1)
   \<and> [''a'', ''b''] ! (2 - 1) \<noteq> [''b'', ''a''] ! (2 - 1)
   \<and> lcs_step [''a'', ''b''] [''b'', ''a''] (lcs_table [''a'', ''b''] [''b'', ''a'']) (2, 2, 1, [[], []])
       \<noteq> Inr (2 - 1, 2, 1, [[], []])
   \<and> lcs_step [''a'', ''b''] [''b'', ''a''] (lcs_table [''a'', ''b''] [''b'', ''a'']) (2, 2, 1, [[], []])
       = Inr (2, 2 - 1, 1, [[], []])
   \<and> lcs [''a'', ''b''] [''b'', ''a''] = Inr [''b'']"
  by code_simp

section \<open>The claims about \<^verbatim>\<open>get_spans\<close>\<close>

text \<open>
  Claim C3. For every non-empty boolean mask of length \<open>n\<close>, \<^verbatim>\<open>get_spans\<close> returns a span
  list whose spans are contiguous and non-overlapping (\<open>tiles\<close>: each span starts one past
  the end of the one before, the first at 0, the last ends at \<open>n - 1\<close>), ordered by start
  index (every span ends before any later span starts), whose union is exactly the index
  range from 0 to \<open>n - 1\<close>, and in which no two adjacent spans carry the same flag. Each
  span's flag is the value of the mask at every index of the span, so the spans are the
  maximal runs of the mask.
\<close>

theorem get_spans_cover:
  assumes "tokens_highlight \<noteq> []"
  shows "\<exists>spans. get_spans tokens_highlight = Inr spans \<and>
           tiles 0 spans (int (length tokens_highlight)) \<and>
           sorted_wrt (\<lambda>x y. fst (snd x) < fst y) spans \<and>
           (\<Union>(a, b, f) \<in> set spans. {a..b}) = {0..int (length tokens_highlight) - 1} \<and>
           distinct_adj (map (\<lambda>x. snd (snd x)) spans) \<and>
           (\<forall>(a, b, f) \<in> set spans. \<forall>p \<in> {a..b}. tokens_highlight ! nat p = f)"
proof -
  obtain spans where s: "get_spans tokens_highlight = Inr spans"
      "tiles 0 spans (int (length tokens_highlight))"
      "distinct_adj (map (\<lambda>x. snd (snd x)) spans)"
      "\<forall>(a, b, f) \<in> set spans. \<forall>p \<in> {a..b}. tokens_highlight ! nat p = f"
    using get_spans_nonempty [OF assms] by blast
  show ?thesis
    using s tiles_sorted [OF s(2)] tiles_union [OF s(2)] by blast
qed

theorem get_spans_cover_witness:
  "get_spans [True, True, False, True] = Inr [(0, 1, True), (2, 2, False), (3, 3, True)] \<and>
   tiles 0 [(0, 1, True), (2, 2, False), (3, 3, True)] 4 \<and>
   sorted_wrt (\<lambda>x y. fst (snd x) < fst y) [(0::int, 1::int, True), (2, 2, False), (3, 3, True)] \<and>
   (\<Union>(a, b, f) \<in> set [(0, 1, True), (2, 2, False), (3::int, 3::int, True)]. {a..b}) = {0..3} \<and>
   distinct_adj (map (\<lambda>x. snd (snd x)) [(0::int, 1::int, True), (2, 2, False), (3, 3, True)])"
proof -
  have run: "get_spans [True, True, False, True] = Inr [(0, 1, True), (2, 2, False), (3, 3, True)]"
    by code_simp
  have ne: "[True, True, False, True] \<noteq> []" by simp
  show ?thesis
    using get_spans_cover [OF ne] run by simp
qed

text \<open>
  Claim C9. On the empty mask \<^verbatim>\<open>get_spans\<close> fails: \<^verbatim>\<open>tokens_highlight[0]\<close> raises Python's
  \<^verbatim>\<open>IndexError\<close>, the error the specification calls invalid input, and no span list is
  returned. On every non-empty mask it returns a span list and does not raise.
\<close>

theorem get_spans_empty_raises:
  "get_spans [] = Inl IndexError \<and>
   (tokens_highlight \<noteq> [] \<longrightarrow> (\<exists>spans. get_spans tokens_highlight = Inr spans))"
  using get_spans_nonempty [of tokens_highlight] by (auto simp: get_spans_def)

theorem get_spans_empty_raises_witness:
  "get_spans [] = Inl IndexError \<and> (\<exists>spans. get_spans [False, True] = Inr spans)"
  using get_spans_empty_raises [of "[False, True]"] by simp

section \<open>The claim about the highlight masks\<close>

text \<open>
  Claim C2. For every reference token list and prediction token list, the marking loop of
  \<^verbatim>\<open>ErrorCase.__init__\<close> does not raise, each mask is as long as its token list, and the
  number of \<open>True\<close> entries of the reference (target) mask and of the prediction mask are
  both the length of the list \<^verbatim>\<open>lcs\<close> returned.
\<close>

theorem highlight_masks_counts:
  "\<exists>lcs_tokens target_tokens_highlight pred_tokens_highlight.
     lcs target_tokens pred_tokens = Inr lcs_tokens \<and>
     highlight_masks target_tokens pred_tokens =
       Inr (target_tokens_highlight, pred_tokens_highlight) \<and>
     length target_tokens_highlight = length target_tokens \<and>
     length pred_tokens_highlight = length pred_tokens \<and>
     count_list target_tokens_highlight True = length lcs_tokens \<and>
     count_list pred_tokens_highlight True = length lcs_tokens"
proof -
  let ?r = "lcs_path target_tokens pred_tokens (length target_tokens) (length pred_tokens)"
  have run: "lcs target_tokens pred_tokens = Inr ?r" by (rule lcs_eq_path)
  have s1: "subseq ?r (drop 0 target_tokens)"
    using lcs_path_subseq_left [of "length target_tokens" target_tokens pred_tokens] by simp
  have s2: "subseq ?r (drop 0 pred_tokens)"
    using lcs_path_subseq_right [of "length pred_tokens" pred_tokens target_tokens] by simp
  obtain ti' pi' th' ph' where
    m: "mark_loop target_tokens pred_tokens ?r
          (0, 0, replicate (length target_tokens) False, replicate (length pred_tokens) False)
        = Inr (ti', pi', th', ph')"
       "length th' = length target_tokens" "length ph' = length pred_tokens"
       "count_list th' True = count_list (replicate (length target_tokens) False) True + length ?r"
       "count_list ph' True = count_list (replicate (length pred_tokens) False) True + length ?r"
    using mark_loop_counts [OF s1 s2, of "replicate (length target_tokens) False"
        "replicate (length pred_tokens) False"] by auto
  have "highlight_masks target_tokens pred_tokens = Inr (th', ph')"
    using run m(1) by (simp add: highlight_masks_def)
  then show ?thesis
    using run m(2-5) by (simp add: count_list_all_False)
qed

section \<open>The claims about the normalization and the classification chain\<close>

text \<open>
  Claim C6, as the code has it. \<^verbatim>\<open>_remove_punctuation\<close> with its default arguments removes
  the apostrophe: \<^verbatim>\<open>string.punctuation\<close> contains it and the function takes nothing out of
  that class. The word \<^verbatim>\<open>don't\<close> becomes \<^verbatim>\<open>dont\<close>, and no result of the function contains
  an apostrophe. The docstring of the function and the claim say the apostrophe is kept.
\<close>

theorem remove_punctuation_drops_apostrophe:
  "u_remove_punctuation (''don'' @ [CHR 0x27] @ ''t'') True True = ''dont'' \<and>
   CHR 0x27 \<notin> set (u_remove_punctuation word True True)"
proof
  show "u_remove_punctuation (''don'' @ [CHR 0x27] @ ''t'') True True = ''dont''"
    by code_simp
next
  show "CHR 0x27 \<notin> set (u_remove_punctuation word True True)"
  proof
    assume "CHR 0x27 \<in> set (u_remove_punctuation word True True)"
    then obtain c where c: "py_lower c = CHR 0x27"
        "c \<in> set (py_strip (filter (\<lambda>c. c \<noteq> CHR 0xA0)
                (filter (\<lambda>c. c \<noteq> CHR '' '') (filter (\<lambda>c. \<not> in_punct_class c) word))))"
      by (auto simp: u_remove_punctuation_def)
    from c(2) set_py_strip have "c \<in> set (filter (\<lambda>c. c \<noteq> CHR 0xA0)
                (filter (\<lambda>c. c \<noteq> CHR '' '') (filter (\<lambda>c. \<not> in_punct_class c) word)))"
      by blast
    then have "\<not> in_punct_class c" by simp
    moreover have "of_char c = (39::nat)"
      using c(1) of_char_py_lower [of c] by simp
    ultimately show False using apostrophe_in_class by blast
  qed
qed

text \<open>
  Claim C4, as the code has it. Take a prediction and a reference whose normalized forms
  (\<^verbatim>\<open>_remove_punctuation(...).strip()\<close>) differ but are equal after replacing every \<open>s\<close> by
  \<open>z\<close> on both sides. The chain then reaches \<^verbatim>\<open>correct_with_zs += 1\<close> without calling the
  normalizer. In \<^verbatim>\<open>ErrorCase.__init__\<close> that counter is never bound: the statement raises
  \<^verbatim>\<open>UnboundLocalError\<close>, the loop over the span pairs and the constructor end with it, and
  no verdict is assigned. In \<^verbatim>\<open>filter_out_acceptable_errors\<close>, where the counters start at
  0, the same statement records the phonetic variant. Reference \<^verbatim>\<open>plays\<close> with prediction
  \<^verbatim>\<open>playz\<close> makes the constructor raise, and is tallied as \<^verbatim>\<open>s z correct: 1\<close> by
  \<^verbatim>\<open>filter_out_acceptable_errors\<close>.
\<close>

theorem phonetic_variant_raises_in_init:
  assumes "py_strip (u_remove_punctuation pred True True) \<noteq>
           py_strip (u_remove_punctuation target True True)"
      and "replace_char CHR ''s'' CHR ''z'' (py_strip (u_remove_punctuation pred True True)) =
           replace_char CHR ''s'' CHR ''z'' (py_strip (u_remove_punctuation target True True))"
  shows "classify_block normalizer remove_punctuation input pred target init_frame =
           (init_frame, Some UnboundLocalError) \<and>
         span_loop normalizer remove_punctuation original target pred target_tokens pred_tokens
           (((start_pred, end_pred, False), target_span) # pairs) init_frame =
           (let s1 = emit (span_line ''target:'' target_tokens target_span) init_frame
            in if snd (snd target_span) then emit (Print ''????'') s1 else s1,
            Some UnboundLocalError) \<and>
         classify_block normalizer remove_punctuation input pred target zero_frame =
           (zero_frame\<lparr>correct_with_zs := Some 1\<rparr>, None)"
proof (intro conjI)
  show "classify_block normalizer remove_punctuation input pred target init_frame =
           (init_frame, Some UnboundLocalError)"
    using classify_block_phonetic [OF assms] by (simp add: init_frame_def)
  show "classify_block normalizer remove_punctuation input pred target zero_frame =
           (zero_frame\<lparr>correct_with_zs := Some 1\<rparr>, None)"
    using classify_block_phonetic [OF assms] by (simp add: zero_frame_def)
  have unbound: "correct_with_zs s = None \<Longrightarrow>
      classify_block normalizer remove_punctuation (Some original) pred target s =
        (s, Some UnboundLocalError)" for s
    using classify_block_phonetic [OF assms] by simp
  have e: "correct_with_zs (emit ev s) = correct_with_zs s" for ev s
    by (simp add: emit_def)
  have i: "correct_with_zs init_frame = None" by (simp add: init_frame_def)
  show "span_loop normalizer remove_punctuation original target pred target_tokens pred_tokens
           (((start_pred, end_pred, False), target_span) # pairs) init_frame =
           (let s1 = emit (span_line ''target:'' target_tokens target_span) init_frame
            in if snd (snd target_span) then emit (Print ''????'') s1 else s1,
            Some UnboundLocalError)"
    by (simp add: span_body_def Let_def unbound e i)
qed

theorem phonetic_variant_raises_in_init_witness:
  "classify_block (Some no_alternatives) None (Some ''He plays'') ''playz'' ''plays'' init_frame =
     (init_frame, Some UnboundLocalError) \<and>
   classify_block (Some no_alternatives) None (Some ''He plays'') ''playz'' ''plays'' zero_frame =
     (zero_frame\<lparr>correct_with_zs := Some 1\<rparr>, None) \<and>
   ErrorCase_init None ''He plays'' ''plays'' ''playz'' ''PLAIN'' ''tn'' (Some no_alternatives) =
     ([Print ''target: plays''], Inl UnboundLocalError) \<and>
   filter_out_acceptable_errors True failing_normalizer None
     (Some [''Original Input : He plays'', ''Predicted Str  : playz'',
            ''Ground-Truth   : plays'']) ''i'' ''p'' ''t'' =
     ([PrintCount ''original wrong: '' 1, PrintCount ''wrong: '' 0,
       PrintCount ''no punct correct: '' 0, PrintCount ''s z correct: '' 1,
       PrintCount ''Acceptable error: '' 0], None)"
proof -
  have a: "py_strip (u_remove_punctuation ''playz'' True True) \<noteq>
           py_strip (u_remove_punctuation ''plays'' True True)"
    by code_simp
  have b: "replace_char CHR ''s'' CHR ''z'' (py_strip (u_remove_punctuation ''playz'' True True)) =
           replace_char CHR ''s'' CHR ''z'' (py_strip (u_remove_punctuation ''plays'' True True))"
    by code_simp
  note chain = phonetic_variant_raises_in_init [OF a b, where normalizer = "Some no_alternatives"
      and remove_punctuation = None and input = "Some ''He plays''"]
  have init: "ErrorCase_init None ''He plays'' ''plays'' ''playz'' ''PLAIN'' ''tn''
      (Some no_alternatives) = ([Print ''target: plays''], Inl UnboundLocalError)"
    by code_simp
  have whole: "filter_out_acceptable_errors True failing_normalizer None
     (Some [''Original Input : He plays'', ''Predicted Str  : playz'',
            ''Ground-Truth   : plays'']) ''i'' ''p'' ''t'' =
     ([PrintCount ''original wrong: '' 1, PrintCount ''wrong: '' 0,
       PrintCount ''no punct correct: '' 0, PrintCount ''s z correct: '' 1,
       PrintCount ''Acceptable error: '' 0], None)"
    by code_simp
  show ?thesis
    using chain [THEN conjunct1] chain [THEN conjunct2, THEN conjunct2] init whole by simp
qed

text \<open>
  Claim C7, as the code has it. The loop of \<^verbatim>\<open>ErrorCase.__init__\<close> runs over the positional
  zip of the prediction spans and the reference spans, and the only test before the
  classification chain is \<^verbatim>\<open>if not no_error_pred\<close>.
  \<^item> A list of pairs whose prediction spans are all marked matched is passed without any
    classification, whatever the flags of the reference spans.
  \<^item> A pair whose prediction span is marked mismatched is classified whether its reference
    span is marked matched or not: for a matched reference span the code prints \<^verbatim>\<open>????\<close>
    and classifies all the same. The loop goes on to the remaining pairs unless the chain
    raised.
  \<^item> Pairs whose prediction span is marked matched, in front of any remaining pairs, only
    print their reference line: the loop continues with the remaining pairs from the frame
    with those lines added.
  \<^item> A loop that ends without exception has recorded exactly as many verdicts as the list
    has pairs with a mismatched prediction span; a loop that ends with an exception has
    recorded fewer.
  \<^item> The constructor never raises before the loop, and the list it runs the loop on is the
    zip, prediction spans first, of the spans \<^verbatim>\<open>get_spans\<close> returns for the two masks: it
    has as many pairs as the shorter span list, so a span beyond that is not in the loop.

  For reference \<^verbatim>\<open>b\<close> and prediction \<^verbatim>\<open>a b\<close> the first reference span is matched and the
  first prediction span is not: the chain runs on that pair, calls the normalizer and
  reports the case as wrong. (In the constructor the counter \<^verbatim>\<open>wrong\<close> is unbound, so the
  final \<^verbatim>\<open>wrong += 1\<close> raises; with bound counters it becomes 1.)
\<close>

theorem classification_gated_by_prediction_flag:
  "(list_all (\<lambda>pair. snd (snd (fst pair))) pairs \<longrightarrow>
      span_loop normalizer remove_punctuation input target pred target_tokens pred_tokens
        pairs s =
      (fold (\<lambda>pair. emit (span_line ''target:'' target_tokens (snd pair))) pairs s, None)) \<and>
   (\<not> no_error_pred \<longrightarrow>
      span_loop normalizer remove_punctuation input target pred target_tokens pred_tokens
        (((start_pred, end_pred, no_error_pred),
          (start_target, end_target, no_error_target)) # pairs) s =
      (let target_line = span_line ''target:'' target_tokens
                           (start_target, end_target, no_error_target);
           pred_line = span_line ''pred  :'' pred_tokens (start_pred, end_pred, no_error_pred);
           s1 = emit target_line s;
           s2 = (if no_error_target then emit (Print ''????'') s1 else s1)
       in case classify_block normalizer remove_punctuation (Some input) pred target s2 of
            (s3, Some e) \<Rightarrow> (s3, Some e)
          | (s3, None) \<Rightarrow>
              span_loop normalizer remove_punctuation input target pred target_tokens
                pred_tokens pairs (emit target_line (emit pred_line s3)))) \<and>
   (list_all (\<lambda>pair. snd (snd (fst pair))) ms \<longrightarrow>
      span_loop normalizer remove_punctuation input target pred target_tokens pred_tokens
        (ms @ rest) s =
      span_loop normalizer remove_punctuation input target pred target_tokens pred_tokens
        rest (fold (\<lambda>pair. emit (span_line ''target:'' target_tokens (snd pair))) ms s)) \<and>
   (span_loop normalizer remove_punctuation input target pred target_tokens pred_tokens
      pairs s = (s', r) \<longrightarrow>
      (r = None \<longrightarrow>
         verdicts s' =
           verdicts s + int (length (filter (\<lambda>pair. \<not> snd (snd (fst pair))) pairs))) \<and>
      (r \<noteq> None \<longrightarrow>
         verdicts s \<le> verdicts s' \<and>
         verdicts s' <
           verdicts s + int (length (filter (\<lambda>pair. \<not> snd (snd (fst pair))) pairs)))) \<and>
   (\<exists>target_tokens_highlight pred_tokens_highlight target_spans pred_spans.
      highlight_masks (py_split target) (py_split pred) =
        Inr (target_tokens_highlight, pred_tokens_highlight) \<and>
      get_spans target_tokens_highlight = Inr target_spans \<and>
      get_spans pred_tokens_highlight = Inr pred_spans \<and>
      ErrorCase_init remove_punctuation input target pred classes mode normalizer =
        (case span_loop normalizer remove_punctuation input target pred
                (py_split target) (py_split pred) (zip pred_spans target_spans) init_frame of
           (s, Some e) \<Rightarrow> (out s, Inl e)
         | (s, None) \<Rightarrow>
             (out (emit (Print []) s),
              Inr \<lparr>ec_input = input, ec_target = target, ec_pred = pred,
                   ec_mode = mode, ec_classes = classes,
                   ec_target_tokens = py_split target, ec_pred_tokens = py_split pred,
                   ec_target_spans = target_spans, ec_pred_spans = pred_spans\<rparr>)) \<and>
      length (zip pred_spans target_spans) = min (length pred_spans) (length target_spans))"
proof -
  note a = span_loop_all_matched [of pairs normalizer remove_punctuation input target pred
      target_tokens pred_tokens s]
  note b = span_loop_mismatched_head [of no_error_pred normalizer remove_punctuation input
      target pred target_tokens pred_tokens start_pred end_pred start_target end_target
      no_error_target pairs s]
  note c = span_loop_skip_matched [of ms normalizer remove_punctuation input target pred
      target_tokens pred_tokens rest s]
  note d = span_loop_verdicts [of normalizer remove_punctuation input target pred
      target_tokens pred_tokens pairs s s' r]
  note e = ErrorCase_init_zip [of target pred remove_punctuation input classes mode normalizer]
  show ?thesis
    apply (intro conjI impI)
    subgoal by (rule a)
    subgoal by (rule b)
    subgoal by (rule c)
    subgoal using d by blast
    subgoal using d by blast
    subgoal using d by blast
    subgoal by (rule e)
    done
qed

theorem classification_gated_by_prediction_flag_witness:
  "span_loop (Some no_alternatives) None ''x'' ''b'' ''a b'' [''b''] [''a'', ''b'']
     [((0, 0, False), (0, 0, True))] zero_frame =
   (\<lparr>correct_with_no_punct = Some 0, correct_with_zs = Some 0, acceptable_error = Some 0,
     wrong = Some 1,
     out = [Print ''target: b'', Print ''????'', Normalize ''x'', Print ''input:  x'',
            Print ''nn...: a b'', Print ''target: b'',
            Print ''----------------------------------------'',
            Print ''pred  : a'', Print ''target: b'']\<rparr>, None) \<and>
   span_loop (Some no_alternatives) None ''x'' ''b'' ''a b'' [''b''] [''a'', ''b'']
     [((0, 0, True), (0, 0, False))] zero_frame =
   (emit (Print ''target: b'') zero_frame, None) \<and>
   span_loop (Some no_alternatives) None ''x'' ''b'' ''a b'' [''b''] [''a'', ''b'']
     ([((0, 0, True), (0, 0, False))] @ [((0, 0, False), (0, 0, True))]) zero_frame =
   span_loop (Some no_alternatives) None ''x'' ''b'' ''a b'' [''b''] [''a'', ''b'']
     [((0, 0, False), (0, 0, True))] (emit (Print ''target: b'') zero_frame) \<and>
   verdicts (fst (span_loop (Some no_alternatives) None ''x'' ''b'' ''a b'' [''b''] [''a'', ''b'']
     [((0, 0, False), (0, 0, True))] zero_frame)) = 1"
proof -
  let ?loop = "span_loop (Some no_alternatives) None ''x'' ''b'' ''a b'' [''b''] [''a'', ''b'']"
  note gated = classification_gated_by_prediction_flag
      [where normalizer = "Some no_alternatives"
         and remove_punctuation = None and input = "''x''" and target = "''b''"
         and pred = "''a b''" and target_tokens = "[''b'']" and pred_tokens = "[''a'', ''b'']"
         and s = zero_frame]
  have one: "list_all (\<lambda>pair. snd (snd (fst pair))) [((0::int, 0::int, True), (0::int, 0::int, False))]"
    by simp
  have skipped: "?loop [((0, 0, True), (0, 0, False))] zero_frame =
   (fold (\<lambda>pair. emit (span_line ''target:'' [''b''] (snd pair)))
      [((0, 0, True), (0, 0, False))] zero_frame, None)"
    using one gated [where pairs = "[((0, 0, True), (0, 0, False))]", THEN conjunct1]
    by simp
  have two: "\<not> False" by simp
  have classified: "?loop [((0, 0, False), (0, 0, True))] zero_frame =
     (let target_line = span_line ''target:'' [''b''] (0, 0, True);
           pred_line = span_line ''pred  :'' [''a'', ''b''] (0, 0, False);
           s1 = emit target_line zero_frame;
           s2 = (if True then emit (Print ''????'') s1 else s1)
       in case classify_block (Some no_alternatives) None (Some ''x'') ''a b'' ''b'' s2 of
            (s3, Some e) \<Rightarrow> (s3, Some e)
          | (s3, None) \<Rightarrow> ?loop [] (emit target_line (emit pred_line s3)))"
    using two gated [where pairs = "[]" and no_error_pred = False and no_error_target = True
         and start_pred = 0 and end_pred = 0 and start_target = 0 and end_target = 0,
         THEN conjunct2, THEN conjunct1]
    by simp
  have run: "?loop [((0, 0, False), (0, 0, True))] zero_frame =
   (\<lparr>correct_with_no_punct = Some 0, correct_with_zs = Some 0, acceptable_error = Some 0,
     wrong = Some 1,
     out = [Print ''target: b'', Print ''????'', Normalize ''x'', Print ''input:  x'',
            Print ''nn...: a b'', Print ''target: b'',
            Print ''----------------------------------------'',
            Print ''pred  : a'', Print ''target: b'']\<rparr>, None)"
    using classified classify_b_ab by (simp add: Let_def span_lines_b_ab emit_def)
  have later: "?loop ([((0, 0, True), (0, 0, False))] @ [((0, 0, False), (0, 0, True))]) zero_frame =
      ?loop [((0, 0, False), (0, 0, True))]
        (fold (\<lambda>pair. emit (span_line ''target:'' [''b''] (snd pair)))
           [((0, 0, True), (0, 0, False))] zero_frame)"
    using one gated [where ms = "[((0, 0, True), (0, 0, False))]"
        and rest = "[((0, 0, False), (0, 0, True))]",
        THEN conjunct2, THEN conjunct2, THEN conjunct1]
    by (simp del: span_loop.simps)
  have count: "verdicts (fst (?loop [((0, 0, False), (0, 0, True))] zero_frame)) =
      verdicts zero_frame +
      int (length (filter (\<lambda>pair. \<not> snd (snd (fst pair))) [((0::int, 0::int, False), (0::int, 0::int, True))]))"
    using run gated [where pairs = "[((0, 0, False), (0, 0, True))]" and r = None
        and s' = "fst (?loop [((0, 0, False), (0, 0, True))] zero_frame)",
        THEN conjunct2, THEN conjunct2, THEN conjunct2, THEN conjunct1]
    by simp
  have v0: "verdicts zero_frame = 0" by (simp add: verdicts_def zero_frame_def bound_value_def)
  show ?thesis
  proof (intro conjI)
    show "?loop [((0, 0, False), (0, 0, True))] zero_frame =
   (\<lparr>correct_with_no_punct = Some 0, correct_with_zs = Some 0, acceptable_error = Some 0,
     wrong = Some 1,
     out = [Print ''target: b'', Print ''????'', Normalize ''x'', Print ''input:  x'',
            Print ''nn...: a b'', Print ''target: b'',
            Print ''----------------------------------------'',
            Print ''pred  : a'', Print ''target: b'']\<rparr>, None)" by (rule run)
    show "?loop [((0, 0, True), (0, 0, False))] zero_frame =
        (emit (Print ''target: b'') zero_frame, None)"
      using skipped by (simp add: span_lines_b_ab)
    show "?loop ([((0, 0, True), (0, 0, False))] @ [((0, 0, False), (0, 0, True))]) zero_frame =
        ?loop [((0, 0, False), (0, 0, True))] (emit (Print ''target: b'') zero_frame)"
      using later by (simp add: span_lines_b_ab)
    show "verdicts (fst (?loop [((0, 0, False), (0, 0, True))] zero_frame)) = 1"
      using count v0 by simp
  qed
qed

theorem classification_of_matched_reference_counterexample:
  "highlight_masks (py_split ''b'') (py_split ''a b'') = Inr ([True], [False, True]) \<and>
   get_spans [True] = Inr [(0, 0, True)] \<and>
   get_spans [False, True] = Inr [(0, 0, False), (1, 1, True)] \<and>
   ErrorCase_init None ''x'' ''b'' ''a b'' ''PLAIN'' ''tn'' (Some no_alternatives) =
     ([Print ''target: b'', Print ''????'', Normalize ''x'', Print ''input:  x'',
       Print ''nn...: a b'', Print ''target: b'',
       Print ''----------------------------------------''], Inl UnboundLocalError) \<and>
   span_loop (Some no_alternatives) None ''x'' ''b'' ''a b'' [''b''] [''a'', ''b'']
     (zip [(0, 0, False), (1, 1, True)] [(0, 0, True)]) zero_frame =
   (\<lparr>correct_with_no_punct = Some 0, correct_with_zs = Some 0, acceptable_error = Some 0,
     wrong = Some 1,
     out = [Print ''target: b'', Print ''????'', Normalize ''x'', Print ''input:  x'',
            Print ''nn...: a b'', Print ''target: b'',
            Print ''----------------------------------------'',
            Print ''pred  : a'', Print ''target: b'']\<rparr>, None)"
  by code_simp

text \<open>
  Claim C8, as the code has it. The call \<^verbatim>\<open>normalizer.normalize(...)\<close> of the chain is not
  inside any \<^verbatim>\<open>try\<close>. When the local checks fail and the normalizer raises, the chain stops
  with that exception right after the call: no counter changes, so no wrong verdict is
  recorded, and nothing marks the failure. The loop over the span pairs of
  \<^verbatim>\<open>ErrorCase.__init__\<close> and the loop over the lines of \<^verbatim>\<open>filter_out_acceptable_errors\<close> end
  with the same exception. The only handler is in the covering-grammar step of
  \<^verbatim>\<open>class_based_evaluation_cg.main\<close>, which keeps the input text as the prediction when
  its normalizer raises. A timeout is not modelled: the code has none.
\<close>

theorem generator_error_propagates:
  assumes "py_strip (u_remove_punctuation pred True True) \<noteq>
           py_strip (u_remove_punctuation target True True)"
      and "replace_char CHR ''s'' CHR ''z'' (py_strip (u_remove_punctuation pred True True)) \<noteq>
           replace_char CHR ''s'' CHR ''z'' (py_strip (u_remove_punctuation target True True))"
      and "normalizer (py_strip (remove_backticks input)) = Inl e"
  shows "classify_block (Some normalizer) remove_punctuation (Some input) pred target s =
           (emit (Normalize (py_strip (remove_backticks input))) s, Some e) \<and>
         span_loop (Some normalizer) remove_punctuation input target pred target_tokens
           pred_tokens (((start_pred, end_pred, False), target_span) # pairs) s =
           (emit (Normalize (py_strip (remove_backticks input)))
              (let s1 = emit (span_line ''target:'' target_tokens target_span) s
               in if snd (snd target_span) then emit (Print ''????'') s1 else s1), Some e) \<and>
         (prefix ''Ground-Truth'' line \<and> line_value line = target \<longrightarrow>
            filter_loop normalizer remove_punctuation (line # lines)
              (original_wrong, s, Some input, pred, old_target) =
            ((original_wrong + 1, emit (Normalize (py_strip (remove_backticks input))) s,
              Some input, pred, target), Some e)) \<and>
         (cg_normalize (if is_url cg_input then filter (\<lambda>c. c \<noteq> CHR '' '') cg_input else cg_input) = Inl e'
            \<longrightarrow> cg_fallback is_url cg_normalize cg_input =
                (if is_url cg_input then filter (\<lambda>c. c \<noteq> CHR '' '') cg_input else cg_input))"
proof (intro conjI impI)
  show "classify_block (Some normalizer) remove_punctuation (Some input) pred target s =
           (emit (Normalize (py_strip (remove_backticks input))) s, Some e)"
    using assms by (simp add: classify_block_raises)
next
  show "span_loop (Some normalizer) remove_punctuation input target pred target_tokens
           pred_tokens (((start_pred, end_pred, False), target_span) # pairs) s =
           (emit (Normalize (py_strip (remove_backticks input)))
              (let s1 = emit (span_line ''target:'' target_tokens target_span) s
               in if snd (snd target_span) then emit (Print ''????'') s1 else s1), Some e)"
    using assms by (simp add: span_body_def Let_def classify_block_raises)
next
  assume "prefix ''Ground-Truth'' line \<and> line_value line = target"
  then show "filter_loop normalizer remove_punctuation (line # lines)
              (original_wrong, s, Some input, pred, old_target) =
            ((original_wrong + 1, emit (Normalize (py_strip (remove_backticks input))) s,
              Some input, pred, target), Some e)"
    using assms by (simp add: filter_line_def Let_def classify_block_raises ground_truth_line)
next
  assume "cg_normalize (if is_url cg_input then filter (\<lambda>c. c \<noteq> CHR '' '') cg_input else cg_input) = Inl e'"
  then show "cg_fallback is_url cg_normalize cg_input =
                (if is_url cg_input then filter (\<lambda>c. c \<noteq> CHR '' '') cg_input else cg_input)"
    by (simp add: cg_fallback_def Let_def)
qed

theorem generator_error_propagates_witness:
  "classify_block (Some failing_normalizer) None (Some ''$2'') ''2 dollars'' ''two dollars''
     zero_frame = (emit (Normalize ''$2'') zero_frame, Some NormalizerError) \<and>
   filter_loop failing_normalizer None [''Ground-Truth   : two dollars'']
     (0, zero_frame, Some ''$2'', ''2 dollars'', ''t'') =
     ((1, emit (Normalize ''$2'') zero_frame, Some ''$2'', ''2 dollars'', ''two dollars''),
      Some NormalizerError) \<and>
   cg_fallback (\<lambda>t. False) failing_normalizer ''$2'' = ''$2''"
proof -
  have a: "py_strip (u_remove_punctuation ''2 dollars'' True True) \<noteq>
           py_strip (u_remove_punctuation ''two dollars'' True True)"
    by code_simp
  have b: "replace_char CHR ''s'' CHR ''z'' (py_strip (u_remove_punctuation ''2 dollars'' True True)) \<noteq>
           replace_char CHR ''s'' CHR ''z'' (py_strip (u_remove_punctuation ''two dollars'' True True))"
    by code_simp
  have c: "failing_normalizer (py_strip (remove_backticks ''$2'')) = Inl NormalizerError"
    by (simp add: failing_normalizer_def)
  have t: "py_strip (remove_backticks ''$2'') = ''$2''" "py_strip ''$2'' = ''$2''"
    by code_simp+
  have l: "prefix ''Ground-Truth'' ''Ground-Truth   : two dollars'' \<and>
           line_value ''Ground-Truth   : two dollars'' = ''two dollars''"
    by code_simp
  have g: "failing_normalizer (if (\<lambda>t. False) ''$2'' then filter (\<lambda>c. c \<noteq> CHR '' '') ''$2'' else ''$2'')
           = Inl NormalizerError"
    by (simp add: failing_normalizer_def)
  show ?thesis
    using generator_error_propagates [where normalizer = failing_normalizer and input = "''$2''"
        and pred = "''2 dollars''" and target = "''two dollars''" and e = NormalizerError
        and s = zero_frame and remove_punctuation = None
        and line = "''Ground-Truth   : two dollars''" and lines = "[]" and original_wrong = 0
        and old_target = "''t''" and cg_normalize = failing_normalizer
        and is_url = "\<lambda>t. False" and cg_input = "''$2''" and e' = NormalizerError, OF a b c] l g
    by (simp add: t)
qed

theorem generator_error_counterexample:
  "ErrorCase_init None ''$2'' ''two dollars'' ''2 dollars'' ''MONEY'' ''tn''
     (Some failing_normalizer) =
     ([Print ''target: two'', Normalize ''$2''], Inl NormalizerError) \<and>
   filter_out_acceptable_errors True failing_normalizer None
     (Some [''Original Input : $2'', ''Predicted Str  : 2 dollars'',
            ''Ground-Truth   : two dollars'']) ''i'' ''p'' ''t'' =
     ([Normalize ''$2''], Some NormalizerError)"
  by code_simp

end
